theory Spec2Isabelle
  imports Main "HOL-Library.Word"
begin

section \<open>JavaScript values and built-ins used by worker.js\<close>

text \<open>
  JavaScript strings are modelled as \<open>string\<close>; a value that may be \<open>null\<close> or
  \<open>undefined\<close> is a \<open>string option\<close>. \<open>truthy\<close> is the test that \<open>if (x)\<close> and
  \<open>!x\<close> make on such a value: \<open>null\<close> and the empty string are falsy.
\<close>

definition truthy :: "string option \<Rightarrow> bool" where
  "truthy v = (case v of None \<Rightarrow> False | Some s \<Rightarrow> s \<noteq> [])"

text \<open>\<open>v || d\<close> on a string that may be missing.\<close>

definition or_str :: "string option \<Rightarrow> string \<Rightarrow> string" where
  "or_str v d = (case v of None \<Rightarrow> d | Some s \<Rightarrow> if s = [] then d else s)"

text \<open>\<open>n || d\<close> on a number: \<open>NaN\<close> (here \<open>None\<close>) and \<open>0\<close> are falsy.\<close>

definition or_num :: "int option \<Rightarrow> int \<Rightarrow> int" where
  "or_num v d = (case v of None \<Rightarrow> d | Some n \<Rightarrow> if n = 0 then d else n)"

text \<open>White space as \<open>String.prototype.trim\<close> and \<open>parseInt\<close> see it, on 8-bit code units.\<close>

definition is_space :: "char \<Rightarrow> bool" where
  "is_space c = ((of_char c :: nat) \<in> {9, 10, 11, 12, 13, 32, 160})"

definition trim :: "string \<Rightarrow> string" where
  "trim s = rev (dropWhile is_space (rev (dropWhile is_space s)))"

definition is_digit :: "char \<Rightarrow> bool" where
  "is_digit c = (48 \<le> (of_char c :: nat) \<and> (of_char c :: nat) \<le> 57)"

definition digit_val :: "char \<Rightarrow> nat" where
  "digit_val c = of_char c - 48"

definition digits_val :: "string \<Rightarrow> nat" where
  "digits_val ds = foldl (\<lambda>a c. 10 * a + digit_val c) 0 ds"

text \<open>
  \<open>parseInt(str, 10)\<close>: leading white space, an optional sign, then the longest run of
  decimal digits; \<open>NaN\<close> (\<open>None\<close>) when there is no digit. Numbers are unbounded
  integers here; the rounding of doubles beyond \<open>2^53\<close> is not modelled.
\<close>

definition parseInt :: "string \<Rightarrow> int option" where
  "parseInt str =
     (let s = dropWhile is_space str;
          neg = (case s of [] \<Rightarrow> False | c # _ \<Rightarrow> c = CHR ''-'');
          r = (case s of [] \<Rightarrow> [] | c # t \<Rightarrow> if c = CHR ''-'' \<or> c = CHR ''+'' then t else s);
          ds = takeWhile is_digit r
      in if ds = [] then None
         else Some (if neg then - int (digits_val ds) else int (digits_val ds)))"

definition digit_char :: "nat \<Rightarrow> char" where
  "digit_char d = ''0123456789'' ! d"

fun show_nat :: "nat \<Rightarrow> string" where
  "show_nat n = (if n < 10 then [digit_char n] else show_nat (n div 10) @ [digit_char (n mod 10)])"

declare show_nat.simps [simp del]

text \<open>\<open>String(n)\<close> and \<open>${n}\<close> for an integer \<open>n\<close>.\<close>

definition String :: "int \<Rightarrow> string" where
  "String n = (if n < 0 then CHR ''-'' # show_nat (nat (- n)) else show_nat (nat n))"

text \<open>\<open>s.split(",")[0]\<close>: the part before the first comma.\<close>

definition split_first :: "string \<Rightarrow> string" where
  "split_first s = takeWhile (\<lambda>c. c \<noteq> CHR '','') s"

text \<open>\<open>s.split(",")\<close>: never empty, \<open>"".split(",")\<close> is \<open>[""]\<close>.\<close>

fun split_comma :: "string \<Rightarrow> string list" where
  "split_comma [] = [[]]"
| "split_comma (c # s) =
     (if c = CHR '','' then [] # split_comma s
      else (case split_comma s of [] \<Rightarrow> [[c]] | w # ws \<Rightarrow> (c # w) # ws))"

text \<open>\<open>toLowerCase\<close> on 8-bit code units: A-Z, and the Latin-1 capitals except the
  multiplication sign.\<close>

definition lower_char :: "char \<Rightarrow> char" where
  "lower_char c =
     (let n = (of_char c :: nat)
      in if (65 \<le> n \<and> n \<le> 90) \<or> (192 \<le> n \<and> n \<le> 222 \<and> n \<noteq> 215) then char_of (n + 32) else c)"

definition toLowerCase :: "string \<Rightarrow> string" where
  "toLowerCase s = map lower_char s"

text \<open>\<open>s.replace(/\/+$/, "")\<close>: drop the slashes at the end.\<close>

definition strip_trailing_slashes :: "string \<Rightarrow> string" where
  "strip_trailing_slashes s = rev (dropWhile (\<lambda>c. c = CHR ''/'') (rev s))"

section \<open>The platform: what the Workers runtime computes\<close>

text \<open>
  The functions of the runtime that the worker calls and whose results it only passes on
  are parameters of the model:
  \<^item> \<open>sha1_digest s\<close>: the bytes of \<open>crypto.subtle.digest("SHA-1", new TextEncoder().encode(s))\<close>;
  \<^item> \<open>atob s\<close>: the decoded binary string, \<open>None\<close> where \<open>atob\<close> throws;
  \<^item> \<open>utf8_decode s\<close>: \<open>new TextDecoder().decode\<close> of the bytes of a binary string;
  \<^item> \<open>url_protocol s\<close>: \<open>new URL(s).protocol\<close>, \<open>None\<close> where the constructor throws;
  \<^item> \<open>url_href s\<close>: the URL that the runtime's parser makes of \<open>s\<close>, written out
    again (\<open>new URL(s).href\<close>; \<open>https://example.com\<close> becomes
    \<open>https://example.com/\<close>), \<open>None\<close> where \<open>s\<close> does not parse;
  \<^item> \<open>encodeURIComponent s\<close>.
\<close>

record platform =
  sha1_digest :: "string \<Rightarrow> 8 word list"
  atob :: "string \<Rightarrow> string option"
  utf8_decode :: "string \<Rightarrow> string"
  url_protocol :: "string \<Rightarrow> string option"
  url_href :: "string \<Rightarrow> string option"
  encodeURIComponent :: "string \<Rightarrow> string"

section \<open>The world: KV namespace, cache, clock and random source\<close>

datatype kv_op = KvGet string | KvPut string string "int option"

datatype cache_op = CacheMatch string | CachePut string string int

datatype exn = KvFailure | QuotaExceeded | TypeError

text \<open>
  \<open>kv\<close> is the namespace \<open>LINKS\<close>: a value and, for a key written with
  \<open>expirationTtl\<close>, the second at which it expires. \<open>kv_calls\<close> and \<open>cache_calls\<close>
  record every call made, in order. \<open>kv_fails n\<close> says that the \<open>n\<close>-th KV call
  (counted from 0 over the whole run) throws. \<open>now_ms\<close> is \<open>Date.now()\<close>.
  \<open>random\<close> is the stream of bytes that \<open>crypto.getRandomValues\<close> hands out and
  \<open>random_pos\<close> how many have been taken.
\<close>

record world =
  now_ms :: int
  kv :: "string \<rightharpoonup> string \<times> int option"
  kv_calls :: "kv_op list"
  kv_fails :: "nat \<Rightarrow> bool"
  cache :: "string \<rightharpoonup> string"
  cache_calls :: "cache_op list"
  random :: "nat \<Rightarrow> 8 word"
  random_pos :: nat

text \<open>
  An \<open>async\<close> function is a function of the world that returns its value, or the
  exception it threw, with the world it leaves. \<open>await m f\<close> runs \<open>m\<close> and continues
  with \<open>f\<close>; an exception of \<open>m\<close> is not caught.
\<close>

type_synonym 'a io = "world \<Rightarrow> (exn + 'a) \<times> world"

definition ret :: "'a \<Rightarrow> 'a io" where
  "ret x s = (Inr x, s)"

definition throw :: "exn \<Rightarrow> 'a io" where
  "throw x s = (Inl x, s)"

definition await :: "'a io \<Rightarrow> ('a \<Rightarrow> 'b io) \<Rightarrow> 'b io" where
  "await m f s = (case m s of (Inl e, s') \<Rightarrow> (Inl e, s') | (Inr x, s') \<Rightarrow> f x s')"

definition kv_lookup :: "world \<Rightarrow> string \<Rightarrow> string option" where
  "kv_lookup s k =
     (case kv s k of
        None \<Rightarrow> None
      | Some (v, None) \<Rightarrow> Some v
      | Some (v, Some e) \<Rightarrow> if now_ms s div 1000 < e then Some v else None)"

definition LINKS_get :: "string \<Rightarrow> string option io" where
  "LINKS_get k s =
     (let s' = s\<lparr>kv_calls := kv_calls s @ [KvGet k]\<rparr>
      in if kv_fails s (length (kv_calls s)) then (Inl KvFailure, s')
         else (Inr (kv_lookup s k), s'))"

definition LINKS_put :: "string \<Rightarrow> string \<Rightarrow> int option \<Rightarrow> unit io" where
  "LINKS_put k v ttl s =
     (let s' = s\<lparr>kv_calls := kv_calls s @ [KvPut k v ttl]\<rparr>
      in if kv_fails s (length (kv_calls s)) then (Inl KvFailure, s')
         else (Inr (),
               s'\<lparr>kv := (kv s)(k \<mapsto> (v, map_option (\<lambda>t. now_ms s div 1000 + t) ttl))\<rparr>))"

definition cache_match :: "string \<Rightarrow> string option io" where
  "cache_match k s = (Inr (cache s k), s\<lparr>cache_calls := cache_calls s @ [CacheMatch k]\<rparr>)"

definition cache_put :: "string \<Rightarrow> string \<Rightarrow> int \<Rightarrow> unit io" where
  "cache_put k v ttl s =
     (Inr (), s\<lparr>cache_calls := cache_calls s @ [CachePut k v ttl], cache := (cache s)(k \<mapsto> v)\<rparr>)"

text \<open>
  \<open>crypto.getRandomValues(new Uint8Array(len))\<close>: the next \<open>len\<close> bytes of the stream;
  the runtime refuses more than 65536 bytes in one call.
\<close>

definition getRandomValues :: "nat \<Rightarrow> 8 word list io" where
  "getRandomValues len s =
     (if len > 65536 then (Inl QuotaExceeded, s)
      else (Inr (map (random s) [random_pos s ..< random_pos s + len]),
            s\<lparr>random_pos := random_pos s + len\<rparr>))"

section \<open>Code generator\<close>

definition chars :: string where
  "chars = ''ABCDEFGHJKLMNPQRSTUVWXYZabcdefghijkmnopqrstuvwxyz23456789''"

definition genCode :: "nat \<Rightarrow> string io" where
  "genCode len =
     await (getRandomValues len)
       (\<lambda>bytes. ret (map (\<lambda>i. chars ! (unat (bytes ! i) mod length chars)) [0 ..< len]))"

section \<open>Environment, requests and responses\<close>

text \<open>
  The bindings and variables that \<open>getEnv()\<close> returns. \<open>has_LINKS\<close> says whether the
  KV namespace is bound (\<open>!LINKS\<close> is its negation); a variable that is not set is \<open>None\<close>.
\<close>

record env =
  has_LINKS :: bool
  BASE_URL :: "string option"
  CORS_MODE :: "string option"
  CORS_ORIGINS :: "string option"
  RL_WINDOW_SEC :: "string option"
  RL_MAX_REQ :: "string option"
  DEDUP_TTL_SEC :: "string option"

text \<open>
  A form field is a string or a file. \<open>formData\<close> is what \<open>req.formData()\<close> resolves
  to, a list of fields, or \<open>None\<close> where it throws. \<open>url_scheme\<close>, \<open>url_host\<close> and
  \<open>pathname\<close> are \<open>u.protocol\<close>, \<open>u.host\<close> and \<open>u.pathname\<close> of
  \<open>new URL(req.url)\<close>. \<open>req_headers\<close> is looked up by the names the source uses.
\<close>

datatype form_value = FormString string | FormFile

record request =
  req_method :: string
  url_scheme :: string
  url_host :: string
  pathname :: string
  req_headers :: "string \<rightharpoonup> string"
  formData :: "(string \<times> form_value) list option"

datatype jsval = JNum int | JStr string

datatype body = Json "(string \<times> jsval) list" | Plain string | Html | NoBody

record response =
  status :: int
  body :: body
  headers :: "(string \<times> string) list"

text \<open>
  \<open>headers[k] = v\<close> and \<open>resp.headers.set(k, v)\<close>. The source's helper \<open>text\<close> is
  \<open>text_response\<close> here, and \<open>req.method\<close> is \<open>req_method\<close>.
\<close>

fun hset :: "string \<Rightarrow> string \<Rightarrow> (string \<times> string) list \<Rightarrow> (string \<times> string) list" where
  "hset k v [] = [(k, v)]"
| "hset k v ((k', v') # hs) = (if k = k' then (k, v) # hs else (k', v') # hset k v hs)"

definition json :: "(string \<times> jsval) list \<Rightarrow> int \<Rightarrow> (string \<times> string) list \<Rightarrow> response" where
  "json obj st extraHeaders =
     \<lparr>status = st, body = Json obj,
      headers = foldl (\<lambda>h kv. hset (fst kv) (snd kv) h)
                  [(''content-type'', ''application/json; charset=utf-8'')] extraHeaders\<rparr>"

definition text_response :: "string \<Rightarrow> int \<Rightarrow> (string \<times> string) list \<Rightarrow> response" where
  "text_response msg st extraHeaders =
     \<lparr>status = st, body = Plain msg,
      headers = foldl (\<lambda>h kv. hset (fst kv) (snd kv) h)
                  [(''content-type'', ''text/plain; charset=utf-8'')] extraHeaders\<rparr>"

text \<open>
  \<open>Response.redirect(url, st)\<close>: the runtime parses the target and throws a
  \<open>TypeError\<close> when it does not parse; the \<open>Location\<close> of the response is the
  parsed URL written out again, not the string handed over.
\<close>

definition redirect :: "platform \<Rightarrow> string \<Rightarrow> int \<Rightarrow> exn + response" where
  "redirect P url st =
     (case url_href P url of
        None \<Rightarrow> Inl TypeError
      | Some href \<Rightarrow> Inr \<lparr>status = st, body = NoBody, headers = [(''Location'', href)]\<rparr>)"

definition landingHtml :: "env \<Rightarrow> response" where
  "landingHtml e = \<lparr>status = 200, body = Html, headers = [(''content-type'', ''text/html; charset=utf-8'')]\<rparr>"

section \<open>CORS\<close>

definition corsMode :: "env \<Rightarrow> string" where
  "corsMode e = toLowerCase (or_str (CORS_MODE e) ''open'')"

definition getCorsAllowlist :: "env \<Rightarrow> string set" where
  "getCorsAllowlist e =
     (let raw = trim (or_str (CORS_ORIGINS e) [])
      in if raw = [] then {}
         else set (filter (\<lambda>x. x \<noteq> []) (map trim (split_comma raw))))"

definition cors_common :: "request \<Rightarrow> response \<Rightarrow> response" where
  "cors_common req resp =
     (let h1 = hset ''Access-Control-Allow-Credentials'' ''false'' (headers resp);
          h2 = hset ''Access-Control-Allow-Methods'' ''POST, OPTIONS'' h1;
          reqHdr = req_headers req ''Access-Control-Request-Headers'';
          h3 = hset ''Access-Control-Allow-Headers''
                 (if truthy reqHdr then or_str reqHdr [] else ''Content-Type'') h2;
          h4 = hset ''Access-Control-Max-Age'' ''86400'' h3
      in resp\<lparr>headers := h4\<rparr>)"

definition withCors :: "request \<Rightarrow> response \<Rightarrow> env \<Rightarrow> response" where
  "withCors req resp e =
     (let mode = corsMode e
      in if mode = ''off'' then resp
         else if mode = ''open''
         then cors_common req (resp\<lparr>headers := hset ''Access-Control-Allow-Origin'' ''*'' (headers resp)\<rparr>)
         else let origin = or_str (req_headers req ''Origin'') [];
                  allow = getCorsAllowlist e
              in if origin = [] \<or> origin \<notin> allow then resp
                 else cors_common req
                        (resp\<lparr>headers := hset ''Vary'' ''Origin''
                                  (hset ''Access-Control-Allow-Origin'' origin (headers resp))\<rparr>))"

section \<open>Helpers of the worker\<close>

function pad4 :: "string \<Rightarrow> string" where
  "pad4 s = (if length s mod 4 \<noteq> 0 then pad4 (s @ ''='') else s)"
  by pat_completeness auto
termination
proof (relation "measure (\<lambda>s. (4 - length s mod 4) mod 4)")
  show "wf (measure (\<lambda>s::string. (4 - length s mod 4) mod 4))"
    by simp
next
  fix s :: string
  assume a: "length s mod 4 \<noteq> 0"
  have "length s mod 4 < 4"
    by simp
  with a have "length s mod 4 = 1 \<or> length s mod 4 = 2 \<or> length s mod 4 = 3"
    by linarith
  then have "(4 - Suc (length s) mod 4) mod 4 < (4 - length s mod 4) mod 4"
    by (auto simp: mod_Suc)
  then show "(s @ ''='', s) \<in> measure (\<lambda>s. (4 - length s mod 4) mod 4)"
    by simp
qed

declare pad4.simps [simp del]

text \<open>\<open>base64ToUtf8\<close>; \<open>None\<close> where \<open>atob\<close> throws.\<close>

definition base64ToUtf8 :: "platform \<Rightarrow> string \<Rightarrow> string option" where
  "base64ToUtf8 P b64 =
     (let s0 = trim b64;
          s1 = map (\<lambda>c. if c = CHR ''-'' then CHR ''+'' else c) s0;
          s2 = map (\<lambda>c. if c = CHR ''_'' then CHR ''/'' else c) s1;
          s3 = pad4 s2
      in case atob P s3 of None \<Rightarrow> None | Some bin \<Rightarrow> Some (utf8_decode P bin))"

definition isHttpUrl :: "platform \<Rightarrow> string \<Rightarrow> bool" where
  "isHttpUrl P u =
     (case url_protocol P u of None \<Rightarrow> False | Some p \<Rightarrow> p = ''http:'' \<or> p = ''https:'')"

definition getClientIp :: "request \<Rightarrow> string" where
  "getClientIp req =
     or_str (req_headers req ''cf-connecting-ip'')
       (or_str (Some (trim (split_first (or_str (req_headers req ''x-forwarded-for'') []))))
          ''0.0.0.0'')"

section \<open>Rate limiter\<close>

record rl_result =
  ok :: bool
  remaining :: int
  resetIn :: int

definition windowSec :: "env \<Rightarrow> int" where
  "windowSec e = max 10 (or_num (parseInt (or_str (RL_WINDOW_SEC e) ''60'')) 60)"

definition maxReq :: "env \<Rightarrow> int" where
  "maxReq e = max 1 (or_num (parseInt (or_str (RL_MAX_REQ e) ''10'')) 10)"

text \<open>
  The cache key: the URL of the request that \<open>rateLimit\<close> builds for a bucket and a
  client. The key is the URL as the template writes it; what \<open>new Request\<close> does to a
  URL while parsing it is not modelled, and neither is a failure of the cache.
\<close>

definition keyUrl :: "platform \<Rightarrow> int \<Rightarrow> string \<Rightarrow> string" where
  "keyUrl P bucket ip = ''https://ratelimit.local/short/'' @ String bucket @ ''/'' @ encodeURIComponent P ip"

definition rateLimit :: "platform \<Rightarrow> env \<Rightarrow> request \<Rightarrow> rl_result io" where
  "rateLimit P e req s =
     (let ip = getClientIp req;
          now = now_ms s div 1000;
          bucket = now div windowSec e;
          cacheKey = keyUrl P bucket ip
      in await (cache_match cacheKey)
           (\<lambda>cached.
              let count = (case cached of None \<Rightarrow> 0 | Some t \<Rightarrow> or_num (parseInt t) 0);
                  resetIn = (bucket + 1) * windowSec e - now
              in if count \<ge> maxReq e then ret \<lparr>ok = False, remaining = 0, resetIn = resetIn\<rparr>
                 else let count' = count + 1;
                          ttl = max 1 resetIn
                      in await (cache_put cacheKey (String count') ttl)
                           (\<lambda>_. ret \<lparr>ok = True, remaining = maxReq e - count', resetIn = resetIn\<rparr>)) s)"

section \<open>Deduplication index\<close>

definition hex_char :: "nat \<Rightarrow> char" where
  "hex_char d = ''0123456789abcdef'' ! d"

fun toString16 :: "nat \<Rightarrow> string" where
  "toString16 n = (if n < 16 then [hex_char n] else toString16 (n div 16) @ [hex_char (n mod 16)])"

declare toString16.simps [simp del]

definition padStart :: "nat \<Rightarrow> char \<Rightarrow> string \<Rightarrow> string" where
  "padStart n c s = replicate (n - length s) c @ s"

definition sha1Hex :: "platform \<Rightarrow> string \<Rightarrow> string" where
  "sha1Hex P input = concat (map (\<lambda>b. padStart 2 (CHR ''0'') (toString16 (unat b))) (sha1_digest P input))"

definition dedupTtl :: "env \<Rightarrow> int" where
  "dedupTtl e = or_num (parseInt (or_str (DEDUP_TTL_SEC e) ''0'')) 0"

definition getDedupCode :: "platform \<Rightarrow> env \<Rightarrow> string \<Rightarrow> string option io" where
  "getDedupCode P e longUrl =
     (let ttl = dedupTtl e
      in if ttl \<le> 0 then ret None
         else LINKS_get (''D:'' @ sha1Hex P longUrl))"

definition putDedupCode :: "platform \<Rightarrow> env \<Rightarrow> string \<Rightarrow> string \<Rightarrow> unit io" where
  "putDedupCode P e longUrl code =
     (let ttl = dedupTtl e
      in if ttl \<le> 0 then ret ()
         else LINKS_put (''D:'' @ sha1Hex P longUrl) code (Some ttl))"

section \<open>Link allocator\<close>

text \<open>
  The loop \<open>for (let i = 0; i < 6; i++)\<close> of \<open>handle\<close>, with the number of rounds
  left as argument: a candidate from \<open>genCode(7)\<close>, a read of the namespace, and the
  candidate is taken (\<open>break\<close>) when the read is falsy. The result is the candidate
  assigned to \<open>code\<close>, or \<open>None\<close> when no round assigned one.
\<close>

fun try_codes :: "nat \<Rightarrow> string option io" where
  "try_codes 0 = ret None"
| "try_codes (Suc n) =
     await (genCode 7)
       (\<lambda>c. await (LINKS_get c)
          (\<lambda>exists. if \<not> truthy exists then ret (Some c) else try_codes n))"

text \<open>
  The part of \<open>handle\<close> from the deduplication lookup to the two writes, for a long URL
  that has passed validation, in the three steps of the source: \<open>lookup_live\<close> is the
  lookup with the check that the code found still has its link ("\<open>if (code)\<close>"),
  \<open>allocate_new\<close> the block under \<open>if (!code)\<close>, and \<open>allocate\<close> the two in
  sequence. The result is the value of \<open>code\<close> at the end: \<open>None\<close> where
  \<open>handle\<close> answers "Failed to allocate code".
\<close>

definition lookup_live :: "platform \<Rightarrow> env \<Rightarrow> string \<Rightarrow> string option io" where
  "lookup_live P e longUrl =
     await (getDedupCode P e longUrl)
       (\<lambda>code.
          case code of
            None \<Rightarrow> ret None
          | Some c \<Rightarrow>
              if c \<noteq> []
              then await (LINKS_get c) (\<lambda>exists. ret (if \<not> truthy exists then None else Some c))
              else ret (Some c))"

definition allocate_new :: "platform \<Rightarrow> env \<Rightarrow> string \<Rightarrow> string option io" where
  "allocate_new P e longUrl =
     await (try_codes 6)
       (\<lambda>code.
          case code of
            None \<Rightarrow> ret None
          | Some c \<Rightarrow>
              if \<not> truthy (Some c) then ret None
              else await (LINKS_put c longUrl None)
                     (\<lambda>_. await (putDedupCode P e longUrl c) (\<lambda>_. ret (Some c))))"

definition allocate :: "platform \<Rightarrow> env \<Rightarrow> string \<Rightarrow> string option io" where
  "allocate P e longUrl =
     await (lookup_live P e longUrl)
       (\<lambda>code. if \<not> truthy code then allocate_new P e longUrl else ret code)"

section \<open>Request handler\<close>

text \<open>
  The validation of the form field \<open>longUrl\<close>: the message and status of the error
  response, or the decoded long URL.
\<close>

definition read_longUrl :: "platform \<Rightarrow> request \<Rightarrow> (string \<times> int) + string" where
  "read_longUrl P req =
     (case formData req of
        None \<Rightarrow> Inl (''Invalid form-data'', 400)
      | Some fd \<Rightarrow>
          (case map_of fd ''longUrl'' of
             None \<Rightarrow> Inl (''Missing longUrl'', 400)
           | Some FormFile \<Rightarrow> Inl (''Missing longUrl'', 400)
           | Some (FormString longUrlB64) \<Rightarrow>
               if trim longUrlB64 = [] then Inl (''Missing longUrl'', 400)
               else if length longUrlB64 > 8192 then Inl (''longUrl too large'', 413)
               else (case base64ToUtf8 P longUrlB64 of
                       None \<Rightarrow> Inl (''Invalid base64 longUrl'', 400)
                     | Some longUrl \<Rightarrow>
                         if length longUrl > 8192 then Inl (''Decoded URL too large'', 413)
                         else if \<not> isHttpUrl P longUrl
                         then Inl (''Decoded longUrl is not a valid http/https URL'', 400)
                         else Inr longUrl)))"

definition error_json :: "string \<Rightarrow> int \<Rightarrow> (string \<times> string) list \<Rightarrow> response" where
  "error_json msg st extraHeaders = json [(''Code'', JNum 0), (''Message'', JStr msg)] st extraHeaders"

definition rl_headers :: "rl_result \<Rightarrow> (string \<times> string) list" where
  "rl_headers rl = [(''x-rl-reset-in'', String (resetIn rl)), (''x-rl-remaining'', String (remaining rl))]"

text \<open>The branch \<open>path === "/short" && req.method === "POST"\<close>.\<close>

definition create :: "platform \<Rightarrow> env \<Rightarrow> request \<Rightarrow> response io" where
  "create P e req =
     (if \<not> has_LINKS e then ret (withCors req (error_json ''KV binding LINKS not found'' 500 []) e)
      else await (rateLimit P e req)
             (\<lambda>rl.
                if \<not> ok rl
                then ret (withCors req
                            (error_json ''Rate limited. Please try again later.'' 429 (rl_headers rl)) e)
                else (case read_longUrl P req of
                        Inl (msg, st) \<Rightarrow> ret (withCors req (error_json msg st []) e)
                      | Inr longUrl \<Rightarrow>
                          await (allocate P e longUrl)
                            (\<lambda>code.
                               case code of
                                 None \<Rightarrow> ret (withCors req (error_json ''Failed to allocate code'' 500 []) e)
                               | Some c \<Rightarrow>
                                   let base = strip_trailing_slashes
                                                (or_str (BASE_URL e) (url_scheme req @ ''//'' @ url_host req));
                                       shortUrl = base @ ''/'' @ c
                                   in ret (withCors req
                                             (json [(''Code'', JNum 1), (''ShortUrl'', JStr shortUrl)] 200
                                                (rl_headers rl)) e)))))"

text \<open>The character class \<open>[A-Za-z0-9_-]\<close> and the match of \<open>/^\/([A-Za-z0-9_-]{3,64})$/\<close>.\<close>

definition code_char :: "char \<Rightarrow> bool" where
  "code_char c =
     (let n = (of_char c :: nat)
      in (65 \<le> n \<and> n \<le> 90) \<or> (97 \<le> n \<and> n \<le> 122) \<or> (48 \<le> n \<and> n \<le> 57)
         \<or> c = CHR ''_'' \<or> c = CHR ''-'')"

definition match_code :: "string \<Rightarrow> string option" where
  "match_code path =
     (case path of
        [] \<Rightarrow> None
      | c # m1 \<Rightarrow>
          if c = CHR ''/'' \<and> 3 \<le> length m1 \<and> length m1 \<le> 64 \<and> list_all code_char m1
          then Some m1 else None)"

text \<open>The end of \<open>handle\<close>: the redirect of a short code, and the final "Not Found".\<close>

definition resolve :: "platform \<Rightarrow> env \<Rightarrow> request \<Rightarrow> response io" where
  "resolve P e req =
     (let m = match_code (pathname req)
      in case m of
           None \<Rightarrow> ret (text_response ''Not Found'' 404 [])
         | Some code \<Rightarrow>
             if req_method req = ''GET'' \<or> req_method req = ''HEAD''
             then if \<not> has_LINKS e then ret (text_response ''KV binding LINKS not found'' 500 [])
                  else await (LINKS_get code)
                         (\<lambda>longUrl.
                            case longUrl of
                              None \<Rightarrow> ret (text_response ''Not Found'' 404 [])
                            | Some l \<Rightarrow>
                                if l = [] then ret (text_response ''Not Found'' 404 [])
                                else (case redirect P l 302 of
                                        Inl x \<Rightarrow> throw x
                                      | Inr r \<Rightarrow> ret r))
             else ret (text_response ''Not Found'' 404 []))"

definition handle :: "platform \<Rightarrow> env \<Rightarrow> request \<Rightarrow> response io" where
  "handle P e req =
     (let path = pathname req
      in if path = ''/healthz'' then ret (text_response ''ok'' 200 [])
         else if path = ''/short'' \<and> req_method req = ''OPTIONS''
         then ret (withCors req \<lparr>status = 204, body = NoBody, headers = []\<rparr> e)
         else if path = ''/short'' \<and> req_method req = ''POST'' then create P e req
         else if path = ''/'' \<and> req_method req = ''GET'' then ret (landingHtml e)
         else resolve P e req)"

section \<open>Notions used to state the properties\<close>

text \<open>
  \<open>candidate s i\<close> is the code that the \<open>i\<close>-th call of \<open>genCode(7)\<close> made from the
  world \<open>s\<close> returns: it is built from the seven bytes at position \<open>7 * i\<close> after
  \<open>random_pos s\<close>.
\<close>

definition candidate :: "world \<Rightarrow> nat \<Rightarrow> string" where
  "candidate s i =
     map (\<lambda>j. chars ! (unat (random s (random_pos s + 7 * i + j)) mod length chars)) [0 ..< 7]"

text \<open>The key of the deduplication entry of a long URL.\<close>

definition dedup_key :: "platform \<Rightarrow> string \<Rightarrow> string" where
  "dedup_key P longUrl = ''D:'' @ sha1Hex P longUrl"

text \<open>
  \<open>dedup_hit P e u s\<close> is the code that the deduplication index holds for \<open>u\<close> in the
  world \<open>s\<close> and whose link is there too; \<open>None\<close> when deduplication is off, the entry is
  missing or expired, or the link it names is missing.
\<close>

definition dedup_hit :: "platform \<Rightarrow> env \<Rightarrow> string \<Rightarrow> world \<Rightarrow> string option" where
  "dedup_hit P e u s =
     (if dedupTtl e \<le> 0 then None
      else case kv_lookup s (dedup_key P u) of
             None \<Rightarrow> None
           | Some c \<Rightarrow> if c \<noteq> [] \<and> truthy (kv_lookup s c) then Some c else None)"

text \<open>The writes among the calls made to the namespace, and the writes of links (those without a time to live).\<close>

definition is_put :: "kv_op \<Rightarrow> bool" where
  "is_put op = (case op of KvGet _ \<Rightarrow> False | KvPut _ _ _ \<Rightarrow> True)"

definition is_link_put :: "kv_op \<Rightarrow> bool" where
  "is_link_put op = (case op of KvGet _ \<Rightarrow> False | KvPut _ _ ttl \<Rightarrow> ttl = None)"

definition no_kv_failure :: "world \<Rightarrow> bool" where
  "no_kv_failure s = (\<forall>n. \<not> kv_fails s n)"

text \<open>The count that \<open>rateLimit\<close> reads for a cache key.\<close>

definition rl_count :: "world \<Rightarrow> string \<Rightarrow> int" where
  "rl_count s k = (case cache s k of None \<Rightarrow> 0 | Some t \<Rightarrow> or_num (parseInt t) 0)"

text \<open>The cache key of the request at the time of the world.\<close>

definition rl_key :: "platform \<Rightarrow> env \<Rightarrow> request \<Rightarrow> world \<Rightarrow> string" where
  "rl_key P e req s = keyUrl P (now_ms s div 1000 div windowSec e) (getClientIp req)"

text \<open>The seconds left in the window of the world's time.\<close>

definition reset_in :: "env \<Rightarrow> world \<Rightarrow> int" where
  "reset_in e s = (now_ms s div 1000 div windowSec e + 1) * windowSec e - now_ms s div 1000"

text \<open>
  The world after the rate limiter has counted one more request: the cache was read, and the
  count plus one was written back with the seconds left in the window, at least 1, as
  \<open>max-age\<close>.
\<close>

definition counted :: "platform \<Rightarrow> env \<Rightarrow> request \<Rightarrow> world \<Rightarrow> world" where
  "counted P e req s =
     (let k = rl_key P e req s;
          n = rl_count s k + 1
      in s\<lparr>cache_calls := cache_calls s @ [CacheMatch k, CachePut k (String n) (max 1 (reset_in e s))],
           cache := (cache s)(k \<mapsto> String n)\<rparr>)"

text \<open>The call of the rate limiter made when the clock shows \<open>t\<close> milliseconds.\<close>

definition admit_at :: "platform \<Rightarrow> env \<Rightarrow> request \<Rightarrow> int \<Rightarrow> rl_result io" where
  "admit_at P e req t s = rateLimit P e req (s\<lparr>now_ms := t\<rparr>)"

text \<open>The short URL that \<open>handle\<close> builds for a code.\<close>

definition short_url :: "env \<Rightarrow> request \<Rightarrow> string \<Rightarrow> string" where
  "short_url e req c =
     strip_trailing_slashes (or_str (BASE_URL e) (url_scheme req @ ''//'' @ url_host req)) @ ''/'' @ c"

text \<open>The case-sensitive letters and the digits.\<close>

definition is_alnum :: "char \<Rightarrow> bool" where
  "is_alnum c =
     (let n = (of_char c :: nat)
      in (48 \<le> n \<and> n \<le> 57) \<or> (65 \<le> n \<and> n \<le> 90) \<or> (97 \<le> n \<and> n \<le> 122))"

section \<open>Example inputs\<close>

text \<open>
  Three long URLs and a platform that answers for them as the runtime does: the SHA-1 digests
  are those of the three strings, \<open>atob\<close> decodes their base64 forms, the URL parser
  accepts them with protocol \<open>https:\<close> and writes the first two out as they are and the
  third, which has no path, with the path \<open>/\<close>, and \<open>encodeURIComponent\<close> leaves a
  dotted address as it is. On other inputs the example platform gives an empty digest and
  rejects.
\<close>

definition url_a :: string where
  "url_a = ''https://example.com/a''"

definition url_b :: string where
  "url_b = ''https://example.com/b''"

definition url_c :: string where
  "url_c = ''https://example.com''"

definition example_platform :: platform where
  "example_platform =
     \<lparr>sha1_digest = (\<lambda>s. if s = url_a then [0xC4, 0xED, 0x1C, 0x21, 0x8D, 0x14, 0xA0, 0xF1, 0x5B, 0xBA, 0x70, 0x44, 0x69, 0x3E, 0xC4, 0xB0, 0xD6, 0x8E, 0x0A, 0x63]
                          else if s = url_b then [0x69, 0xA4, 0x2C, 0xC2, 0x68, 0x96, 0x46, 0x07, 0xCC, 0xA9, 0x18, 0x95, 0xB5, 0x74, 0xBD, 0xFF, 0x63, 0xA7, 0xEF, 0xA0]
                          else if s = url_c then [0x32, 0x7C, 0x3F, 0xDA, 0x87, 0xCE, 0x28, 0x68, 0x48, 0xA5, 0x74, 0x98, 0x2D, 0xDD, 0x0B, 0x7C, 0x74, 0x87, 0xF8, 0x16]
                          else []),
      atob = (\<lambda>s. if s = ''aHR0cHM6Ly9leGFtcGxlLmNvbS9h'' then Some url_a
                   else if s = ''aHR0cHM6Ly9leGFtcGxlLmNvbS9i'' then Some url_b
                   else if s = ''aHR0cHM6Ly9leGFtcGxlLmNvbQ=='' then Some url_c
                   else None),
      utf8_decode = (\<lambda>s. s),
      url_protocol = (\<lambda>s. if s = url_a \<or> s = url_b \<or> s = url_c then Some ''https:'' else None),
      url_href = (\<lambda>s. if s = url_a then Some url_a
                       else if s = url_b then Some url_b
                       else if s = url_c then Some ''https://example.com/''
                       else None),
      encodeURIComponent = (\<lambda>s. s)\<rparr>"

definition example_env :: env where
  "example_env =
     \<lparr>has_LINKS = True, BASE_URL = None, CORS_MODE = None, CORS_ORIGINS = None,
      RL_WINDOW_SEC = None, RL_MAX_REQ = None, DEDUP_TTL_SEC = None\<rparr>"

definition dedup_env :: env where
  "dedup_env = example_env\<lparr>DEDUP_TTL_SEC := Some ''3600''\<rparr>"

definition rl_env :: env where
  "rl_env = example_env\<lparr>RL_WINDOW_SEC := Some ''60'', RL_MAX_REQ := Some ''3''\<rparr>"

text \<open>An empty namespace and cache, no failing call, a random source that gives zeros.\<close>

definition empty_world :: world where
  "empty_world =
     \<lparr>now_ms = 1700000000000, kv = Map.empty, kv_calls = [], kv_fails = (\<lambda>n. False),
      cache = Map.empty, cache_calls = [], random = (\<lambda>n. 0), random_pos = 0\<rparr>"

text \<open>A namespace in which the code of seven \<open>A\<close>, the one that zeros generate, is taken.\<close>

definition full_world :: world where
  "full_world = empty_world\<lparr>kv := [''AAAAAAA'' \<mapsto> (url_b, None)]\<rparr>"

text \<open>
  The namespace after two requests, for \<open>url_a\<close> and for \<open>url_b\<close>, have drawn the same
  candidate at the same time, have both found it free and have both written: the link holds
  the URL written last, and both deduplication entries name the code.
\<close>

definition race_world :: world where
  "race_world =
     empty_world\<lparr>kv := [''AAAAAAA'' \<mapsto> (url_b, None),
                         dedup_key example_platform url_a \<mapsto> (''AAAAAAA'', Some 1700003600),
                         dedup_key example_platform url_b \<mapsto> (''AAAAAAA'', Some 1700003600)]\<rparr>"

text \<open>
  Namespaces with a deduplication entry for \<open>url_a\<close> whose link is gone: the entry names
  the code that zeros generate, or another one.
\<close>

definition stale_world :: world where
  "stale_world =
     empty_world\<lparr>kv := [dedup_key example_platform url_a \<mapsto> (''AAAAAAA'', Some 1700003600)]\<rparr>"

definition stale_world_b :: world where
  "stale_world_b =
     empty_world\<lparr>kv := [dedup_key example_platform url_a \<mapsto> (''BBBBBBB'', Some 1700003600)]\<rparr>"

text \<open>An empty namespace whose fourth call throws.\<close>

definition failing_world :: world where
  "failing_world = empty_world\<lparr>kv_fails := (\<lambda>n. n = 3)\<rparr>"

definition post_a :: request where
  "post_a =
     \<lparr>req_method = ''POST'', url_scheme = ''https:'', url_host = ''s.example.com'',
      pathname = ''/short'',
      req_headers = [''cf-connecting-ip'' \<mapsto> ''203.0.113.7''],
      formData = Some [(''longUrl'', FormString ''aHR0cHM6Ly9leGFtcGxlLmNvbS9h'')]\<rparr>"

definition get_path :: "string \<Rightarrow> request" where
  "get_path p =
     \<lparr>req_method = ''GET'', url_scheme = ''https:'', url_host = ''s.example.com'',
      pathname = p, req_headers = Map.empty, formData = None\<rparr>"

text \<open>A creation request without the field \<open>longUrl\<close>.\<close>

definition post_empty :: request where
  "post_empty = post_a\<lparr>formData := Some []\<rparr>"

text \<open>
  The worlds that the request \<open>post_a\<close> goes through in \<open>failing_world\<close> with
  deduplication on: after the rate limiter, after the deduplication lookup, after the retry
  loop, and after the write of the link.
\<close>

definition failing_start :: world where
  "failing_start = counted example_platform dedup_env post_a failing_world"

definition failing_looked :: world where
  "failing_looked = snd (lookup_live example_platform dedup_env url_a failing_start)"

definition failing_chosen :: world where
  "failing_chosen = snd (try_codes 6 failing_looked)"

definition failing_written :: world where
  "failing_written = snd (LINKS_put ''AAAAAAA'' url_a None failing_chosen)"

text \<open>
  The worlds after four calls of the rate limiter from \<open>empty_world\<close> for the client of
  \<open>post_a\<close>, ten seconds apart within one window of 60 seconds.
\<close>

definition rl_w1 :: world where
  "rl_w1 = snd (admit_at example_platform rl_env post_a 1700000000000 empty_world)"

definition rl_w2 :: world where
  "rl_w2 = snd (admit_at example_platform rl_env post_a 1700000010000 rl_w1)"

definition rl_w3 :: world where
  "rl_w3 = snd (admit_at example_platform rl_env post_a 1700000020000 rl_w2)"

definition rl_w4 :: world where
  "rl_w4 = snd (admit_at example_platform rl_env post_a 1700000030000 rl_w3)"

section \<open>Numbers and their decimal form\<close>

lemma await_ret [simp]: "await (ret x) f = f x"
  by (rule ext) (simp add: await_def ret_def)

lemma of_char_digit_char: "d < 10 \<Longrightarrow> of_char (digit_char d) = 48 + d"
  by (auto simp: digit_char_def less_Suc_eq numeral_eq_Suc nth_Cons')

lemma is_digit_digit_char: "d < 10 \<Longrightarrow> is_digit (digit_char d)"
  by (simp add: is_digit_def of_char_digit_char)

lemma digit_val_digit_char: "d < 10 \<Longrightarrow> digit_val (digit_char d) = d"
  by (simp add: digit_val_def of_char_digit_char)

lemma show_nat_digits: "list_all is_digit (show_nat n)"
proof (induction n rule: show_nat.induct)
  case (1 n)
  show ?case
  proof (cases "n < 10")
    case True
    then show ?thesis by (subst show_nat.simps) (simp add: is_digit_digit_char)
  next
    case False
    with 1 show ?thesis by (subst show_nat.simps) (simp add: is_digit_digit_char)
  qed
qed

lemma show_nat_nonempty: "show_nat n \<noteq> []"
  by (subst show_nat.simps) simp

lemma digits_val_snoc: "digits_val (ds @ [c]) = 10 * digits_val ds + digit_val c"
  by (simp add: digits_val_def)

lemma digits_val_show_nat: "digits_val (show_nat n) = n"
proof (induction n rule: show_nat.induct)
  case (1 n)
  show ?case
  proof (cases "n < 10")
    case True
    then show ?thesis by (subst show_nat.simps) (simp add: digits_val_def digit_val_digit_char)
  next
    case False
    with 1 show ?thesis
      by (subst show_nat.simps) (simp add: digits_val_snoc digit_val_digit_char)
  qed
qed

lemma is_digit_not_space: "is_digit c \<Longrightarrow> \<not> is_space c"
  by (auto simp: is_digit_def is_space_def)

lemma is_digit_not_sign: "is_digit c \<Longrightarrow> c \<noteq> CHR ''-'' \<and> c \<noteq> CHR ''+''"
  by (auto simp: is_digit_def)

lemma takeWhile_all: "list_all P xs \<Longrightarrow> takeWhile P xs = xs"
  by (induction xs) auto

lemma parseInt_digits:
  assumes "list_all is_digit ds" "ds \<noteq> []"
  shows "parseInt ds = Some (int (digits_val ds))"
proof -
  obtain c t where ds: "ds = c # t" using assms(2) by (cases ds) auto
  have c: "is_digit c" using assms(1) ds by simp
  have "dropWhile is_space ds = ds" using c ds is_digit_not_space by simp
  then show ?thesis
    using assms c ds is_digit_not_sign[OF c]
    by (simp add: parseInt_def Let_def takeWhile_all)
qed

lemma parseInt_neg_digits:
  assumes "list_all is_digit ds" "ds \<noteq> []"
  shows "parseInt (CHR ''-'' # ds) = Some (- int (digits_val ds))"
  using assms by (simp add: parseInt_def Let_def takeWhile_all is_space_def)

lemma parseInt_String: "parseInt (String n) = Some n"
proof (cases "n < 0")
  case True
  then show ?thesis
    by (simp add: String_def parseInt_neg_digits show_nat_digits show_nat_nonempty digits_val_show_nat)
next
  case False
  then show ?thesis
    by (simp add: String_def parseInt_digits show_nat_digits show_nat_nonempty digits_val_show_nat)
qed

lemma String_inj: "String a = String b \<Longrightarrow> a = b"
  by (metis parseInt_String option.inject)


section \<open>Basic facts about the code generator and the retry loop\<close>

lemma await_Inr: "m s = (Inr x, s1) \<Longrightarrow> await m f s = f x s1"
  by (simp add: await_def)

lemma await_Inl: "m s = (Inl x, s1) \<Longrightarrow> await m f s = (Inl x, s1)"
  by (simp add: await_def)

lemma chars_length: "length chars = 57"
  by (simp add: chars_def)

lemma getRandomValues_ok:
  "len \<le> 65536 \<Longrightarrow> getRandomValues len s =
     (Inr (map (random s) [random_pos s ..< random_pos s + len]), s\<lparr>random_pos := random_pos s + len\<rparr>)"
  by (simp add: getRandomValues_def)

lemma genCode_ok:
  assumes "len \<le> 65536"
  shows "genCode len s =
     (Inr (map (\<lambda>i. chars ! (unat (random s (random_pos s + i)) mod length chars)) [0 ..< len]),
      s\<lparr>random_pos := random_pos s + len\<rparr>)"
proof -
  let ?bytes = "map (random s) [random_pos s ..< random_pos s + len]"
  have "map (\<lambda>i. chars ! (unat (?bytes ! i) mod length chars)) [0 ..< len] =
        map (\<lambda>i. chars ! (unat (random s (random_pos s + i)) mod length chars)) [0 ..< len]"
    by (rule map_cong) simp_all
  then show ?thesis
    using assms by (simp only: genCode_def await_def getRandomValues_ok ret_def prod.case sum.case)
qed

lemma genCode_7: "genCode 7 s = (Inr (candidate s 0), s\<lparr>random_pos := random_pos s + 7\<rparr>)"
  by (simp only: genCode_ok candidate_def mult_0_right add_0_right)

lemma candidate_length: "length (candidate s i) = 7"
  by (simp add: candidate_def)

lemma candidate_chars: "set (candidate s i) \<subseteq> set chars"
proof -
  have "\<And>n. chars ! (n mod length chars) \<in> set chars"
    by (rule nth_mem) (simp add: chars_length)
  then show ?thesis
    unfolding candidate_def by (auto simp del: upt_Suc)
qed

lemma upt_7: "[0 ..< 7] = [0, 1, 2, 3, 4, 5, 6]"
  by code_simp

lemma candidate_zeros: "random s = (\<lambda>n. 0) \<Longrightarrow> candidate s i = ''AAAAAAA''"
  by (simp add: candidate_def upt_7 chars_def)

lemma kv_lookup_cong: "kv s' = kv s \<Longrightarrow> now_ms s' = now_ms s \<Longrightarrow> kv_lookup s' = kv_lookup s"
  by (rule ext) (simp add: kv_lookup_def split: option.splits)

lemma kv_lookup_upd [simp]:
  "kv_lookup (s\<lparr>random_pos := a\<rparr>) = kv_lookup s"
  "kv_lookup (s\<lparr>kv_calls := b\<rparr>) = kv_lookup s"
  "kv_lookup (s\<lparr>cache := c\<rparr>) = kv_lookup s"
  "kv_lookup (s\<lparr>cache_calls := d\<rparr>) = kv_lookup s"
  "kv_lookup (s\<lparr>kv_fails := f\<rparr>) = kv_lookup s"
  "kv_lookup (s\<lparr>random := g\<rparr>) = kv_lookup s"
  by (rule kv_lookup_cong; simp)+

lemma candidate_shift:
  "random s' = random s \<Longrightarrow> random_pos s' = random_pos s + 7 \<Longrightarrow> candidate s' i = candidate s (Suc i)"
proof -
  assume a: "random s' = random s" "random_pos s' = random_pos s + 7"
  have "\<And>j. random_pos s + 7 + 7 * i + j = random_pos s + 7 * Suc i + j"
    by simp
  then show ?thesis
    by (simp only: candidate_def a)
qed

lemma try_codes_frame:
  "try_codes n s = (r, s') \<Longrightarrow>
     kv s' = kv s \<and> now_ms s' = now_ms s \<and> kv_fails s' = kv_fails s \<and> cache s' = cache s \<and>
     cache_calls s' = cache_calls s \<and> random s' = random s \<and>
     (\<exists>gs. kv_calls s' = kv_calls s @ map KvGet gs)"
proof (induction n arbitrary: s)
  case 0
  then have "s' = s" by (simp add: ret_def)
  then show ?case by (simp add: exI[of _ "[]"])
next
  case (Suc n)
  let ?s1 = "s\<lparr>random_pos := random_pos s + 7, kv_calls := kv_calls s @ [KvGet (candidate s 0)]\<rparr>"
  have one: "kv_calls ?s1 = kv_calls s @ map KvGet [candidate s 0]" by simp
  show ?case
  proof (cases "kv_fails s (length (kv_calls s)) \<or> \<not> truthy (kv_lookup s (candidate s 0))")
    case True
    with Suc.prems have "s' = ?s1"
      by (auto simp: await_def genCode_7 LINKS_get_def ret_def Let_def split: if_splits)
    with one show ?thesis by (simp only: exI[of _ "[candidate s 0]"]) simp
  next
    case False
    with Suc.prems have "try_codes n ?s1 = (r, s')"
      by (simp add: await_def genCode_7 LINKS_get_def)
    from Suc.IH[OF this] obtain gs where
      f: "kv s' = kv s" "now_ms s' = now_ms s" "kv_fails s' = kv_fails s" "cache s' = cache s"
         "cache_calls s' = cache_calls s" "random s' = random s"
      and g: "kv_calls s' = kv_calls ?s1 @ map KvGet gs"
      by auto
    from g have "kv_calls s' = kv_calls s @ map KvGet (candidate s 0 # gs)" by simp
    with f show ?thesis by blast
  qed
qed

lemma try_codes_Some:
  "try_codes n s = (Inr (Some c), s') \<Longrightarrow>
     \<exists>i<n. c = candidate s i \<and> \<not> truthy (kv_lookup s c) \<and>
          (\<forall>j<i. truthy (kv_lookup s (candidate s j))) \<and>
          (\<forall>j\<le>i. \<not> kv_fails s (length (kv_calls s) + j)) \<and>
          s' = s\<lparr>random_pos := random_pos s + 7 * Suc i,
                 kv_calls := kv_calls s @ map (\<lambda>j. KvGet (candidate s j)) [0 ..< Suc i]\<rparr>"
proof (induction n arbitrary: s)
  case 0
  then show ?case by (simp add: ret_def)
next
  case (Suc n)
  let ?s1 = "s\<lparr>random_pos := random_pos s + 7, kv_calls := kv_calls s @ [KvGet (candidate s 0)]\<rparr>"
  have nf: "\<not> kv_fails s (length (kv_calls s))"
    using Suc.prems by (auto simp: await_def genCode_7 LINKS_get_def)
  show ?case
  proof (cases "truthy (kv_lookup s (candidate s 0))")
    case True
    with nf Suc.prems have "try_codes n ?s1 = (Inr (Some c), s')"
      by (simp add: await_def genCode_7 LINKS_get_def)
    from Suc.IH[OF this] obtain i where i: "i < n" "c = candidate ?s1 i"
      "\<not> truthy (kv_lookup ?s1 c)" "\<forall>j<i. truthy (kv_lookup ?s1 (candidate ?s1 j))"
      "\<forall>j\<le>i. \<not> kv_fails ?s1 (length (kv_calls ?s1) + j)"
      "s' = ?s1\<lparr>random_pos := random_pos ?s1 + 7 * Suc i,
                 kv_calls := kv_calls ?s1 @ map (\<lambda>j. KvGet (candidate ?s1 j)) [0 ..< Suc i]\<rparr>"
      by blast
    have sh: "\<And>j. candidate ?s1 j = candidate s (Suc j)"
      by (rule candidate_shift) simp_all
    have a: "Suc i < Suc n" using i(1) by simp
    have b: "c = candidate s (Suc i)" using i(2) sh by simp
    have c: "\<not> truthy (kv_lookup s c)" using i(3) by simp
    have d: "\<forall>j<Suc i. truthy (kv_lookup s (candidate s j))"
    proof (intro allI impI)
      fix j assume "j < Suc i"
      then show "truthy (kv_lookup s (candidate s j))"
        using True i(4) sh by (cases j) auto
    qed
    have e: "\<forall>j\<le>Suc i. \<not> kv_fails s (length (kv_calls s) + j)"
    proof (intro allI impI)
      fix j assume "j \<le> Suc i"
      then show "\<not> kv_fails s (length (kv_calls s) + j)"
        using nf i(5) by (cases j) auto
    qed
    have m: "map (\<lambda>j. KvGet (candidate s j)) [0 ..< Suc (Suc i)] =
             KvGet (candidate s 0) # map (\<lambda>j. KvGet (candidate ?s1 j)) [0 ..< Suc i]"
      by (simp only: map_upt_Suc sh)
    have f: "s' = s\<lparr>random_pos := random_pos s + 7 * Suc (Suc i),
                 kv_calls := kv_calls s @ map (\<lambda>j. KvGet (candidate s j)) [0 ..< Suc (Suc i)]\<rparr>"
      unfolding m using i(6) by simp
    from a b c d e f show ?thesis by blast
  next
    case False
    with nf Suc.prems have "c = candidate s 0" "s' = ?s1"
      by (auto simp: await_def genCode_7 LINKS_get_def ret_def)
    with False nf show ?thesis
      by (intro exI[of _ 0]) simp
  qed
qed

lemma try_codes_Inl:
  "try_codes n s = (Inl x, s') \<Longrightarrow>
     x = KvFailure \<and> (\<exists>j<n. kv_fails s (length (kv_calls s) + j))"
proof (induction n arbitrary: s)
  case 0
  then show ?case by (simp add: ret_def)
next
  case (Suc n)
  let ?s1 = "s\<lparr>random_pos := random_pos s + 7, kv_calls := kv_calls s @ [KvGet (candidate s 0)]\<rparr>"
  show ?case
  proof (cases "kv_fails s (length (kv_calls s))")
    case True
    with Suc.prems have "x = KvFailure"
      by (auto simp: await_def genCode_7 LINKS_get_def)
    with True show ?thesis by (intro conjI exI[of _ 0]) simp_all
  next
    case False
    with Suc.prems have "try_codes n ?s1 = (Inl x, s')"
      by (auto simp: await_def genCode_7 LINKS_get_def ret_def split: if_splits)
    from Suc.IH[OF this] obtain j where "x = KvFailure" "j < n" "kv_fails s (length (kv_calls s) + Suc j)"
      by auto
    then show ?thesis by (intro conjI exI[of _ "Suc j"]) simp_all
  qed
qed

lemma try_codes_present:
  assumes "\<forall>i<n. truthy (kv_lookup s (candidate s i))"
  shows "fst (try_codes n s) = Inr None \<or> fst (try_codes n s) = Inl KvFailure"
    and "no_kv_failure s \<Longrightarrow> fst (try_codes n s) = Inr None"
proof -
  obtain r s' where rs: "try_codes n s = (r, s')" by (cases "try_codes n s")
  have ns: "r \<noteq> Inr (Some c)" for c
  proof
    assume "r = Inr (Some c)"
    with rs try_codes_Some[of n s c s'] assms show False by auto
  qed
  have il: "x = KvFailure \<and> \<not> no_kv_failure s" if "r = Inl x" for x
    using that rs try_codes_Inl[of n s x s'] by (auto simp: no_kv_failure_def)
  show "fst (try_codes n s) = Inr None \<or> fst (try_codes n s) = Inl KvFailure"
  proof (cases r)
    case (Inl x)
    with il rs show ?thesis by simp
  next
    case (Inr o1)
    with ns rs show ?thesis by (cases o1) auto
  qed
  show "fst (try_codes n s) = Inr None" if "no_kv_failure s"
  proof (cases r)
    case (Inl x)
    with il that show ?thesis by simp
  next
    case (Inr o1)
    with ns rs show ?thesis by (cases o1) auto
  qed
qed

section \<open>Basic facts about the deduplication lookup\<close>

lemma getDedupCode_off: "dedupTtl e \<le> 0 \<Longrightarrow> getDedupCode P e u s = (Inr None, s)"
  by (simp add: getDedupCode_def ret_def)

lemma getDedupCode_on:
  "0 < dedupTtl e \<Longrightarrow> getDedupCode P e u = LINKS_get (dedup_key P u)"
  by (simp add: getDedupCode_def dedup_key_def)

lemma putDedupCode_off: "dedupTtl e \<le> 0 \<Longrightarrow> putDedupCode P e u c s = (Inr (), s)"
  by (simp add: putDedupCode_def ret_def)

lemma putDedupCode_on:
  "0 < dedupTtl e \<Longrightarrow> putDedupCode P e u c = LINKS_put (dedup_key P u) c (Some (dedupTtl e))"
  by (simp add: putDedupCode_def dedup_key_def)

lemma lookup_live_off:
  "dedupTtl e \<le> 0 \<Longrightarrow> lookup_live P e u s = (Inr None, s)"
  by (simp add: lookup_live_def await_def getDedupCode_off ret_def)

lemma lookup_live_on:
  assumes "0 < dedupTtl e"
  shows "lookup_live P e u s =
    (let s1 = s\<lparr>kv_calls := kv_calls s @ [KvGet (dedup_key P u)]\<rparr>
     in if kv_fails s (length (kv_calls s)) then (Inl KvFailure, s1)
        else case kv_lookup s (dedup_key P u) of
               None \<Rightarrow> (Inr None, s1)
             | Some c \<Rightarrow>
                 if c = [] then (Inr (Some c), s1)
                 else let s2 = s\<lparr>kv_calls := kv_calls s @ [KvGet (dedup_key P u), KvGet c]\<rparr>
                      in if kv_fails s (Suc (length (kv_calls s))) then (Inl KvFailure, s2)
                         else (Inr (if truthy (kv_lookup s c) then Some c else None), s2))"
  using assms
  by (simp add: lookup_live_def await_def getDedupCode_on LINKS_get_def ret_def Let_def
           split: option.splits)

lemma lookup_live_frame:
  assumes "lookup_live P e u s = (r, s')"
  shows "kv s' = kv s \<and> now_ms s' = now_ms s \<and> kv_fails s' = kv_fails s \<and> cache s' = cache s \<and>
     cache_calls s' = cache_calls s \<and> random s' = random s \<and> random_pos s' = random_pos s \<and>
     (\<exists>gs. kv_calls s' = kv_calls s @ map KvGet gs)"
proof (cases "0 < dedupTtl e")
  case False
  with assms have "s' = s" by (simp add: lookup_live_off)
  then show ?thesis by (simp add: exI[of _ "[]"])
next
  case True
  have g1: "\<exists>gs. [KvGet a] = map KvGet gs" for a
    by (rule exI[of _ "[a]"]) simp
  have g2: "\<exists>gs. [KvGet a, KvGet b] = map KvGet gs" for a b
    by (rule exI[of _ "[a, b]"]) simp
  from assms True show ?thesis
    by (auto simp: lookup_live_on Let_def g1 g2 split: if_splits option.splits)
qed

lemma lookup_live_result:
  assumes "lookup_live P e u s = (Inr code, s')"
  shows "if truthy code then dedup_hit P e u s = code else dedup_hit P e u s = None"
proof (cases "0 < dedupTtl e")
  case False
  with assms show ?thesis by (simp add: lookup_live_off dedup_hit_def truthy_def)
next
  case True
  show ?thesis
  proof (cases "kv_lookup s (dedup_key P u)")
    case None
    with assms True show ?thesis
      by (simp add: lookup_live_on Let_def dedup_hit_def truthy_def split: if_splits)
  next
    case (Some c)
    with True have "lookup_live P e u s =
      (if kv_fails s (length (kv_calls s))
       then (Inl KvFailure, s\<lparr>kv_calls := kv_calls s @ [KvGet (dedup_key P u)]\<rparr>)
       else if c = [] then (Inr (Some c), s\<lparr>kv_calls := kv_calls s @ [KvGet (dedup_key P u)]\<rparr>)
       else if kv_fails s (Suc (length (kv_calls s)))
       then (Inl KvFailure, s\<lparr>kv_calls := kv_calls s @ [KvGet (dedup_key P u), KvGet c]\<rparr>)
       else (Inr (if truthy (kv_lookup s c) then Some c else None),
             s\<lparr>kv_calls := kv_calls s @ [KvGet (dedup_key P u), KvGet c]\<rparr>))"
      by (simp add: lookup_live_on Let_def)
    with assms have "code = (if c = [] then Some c else if truthy (kv_lookup s c) then Some c else None)"
      by (auto split: if_splits)
    with True Some show ?thesis
      by (auto simp: dedup_hit_def truthy_def)
  qed
qed

lemma lookup_live_Inl:
  assumes "lookup_live P e u s = (Inl x, s')"
  shows "x = KvFailure \<and> \<not> no_kv_failure s"
proof (cases "0 < dedupTtl e")
  case False
  with assms show ?thesis by (simp add: lookup_live_off)
next
  case True
  with assms show ?thesis
    by (auto simp: lookup_live_on Let_def no_kv_failure_def split: if_splits option.splits)
qed

section \<open>Basic facts about the allocator\<close>

lemma truthy_candidate: "truthy (Some (candidate s i))"
  using candidate_length[of s i] by (auto simp: truthy_def)

lemma allocate_new_none:
  "try_codes 6 s = (Inr None, s2) \<Longrightarrow> allocate_new P e u s = (Inr None, s2)"
  by (simp add: allocate_new_def await_def ret_def)

lemma allocate_new_throw:
  "try_codes 6 s = (Inl x, s2) \<Longrightarrow> allocate_new P e u s = (Inl x, s2)"
  by (simp add: allocate_new_def await_def)

lemma allocate_new_found:
  assumes t: "try_codes 6 s = (Inr (Some c), s2)"
  shows "allocate_new P e u s =
    (if kv_fails s (length (kv_calls s2))
     then (Inl KvFailure, s2\<lparr>kv_calls := kv_calls s2 @ [KvPut c u None]\<rparr>)
     else if dedupTtl e \<le> 0
     then (Inr (Some c),
           s2\<lparr>kv_calls := kv_calls s2 @ [KvPut c u None], kv := (kv s)(c \<mapsto> (u, None))\<rparr>)
     else if kv_fails s (Suc (length (kv_calls s2)))
     then (Inl KvFailure,
           s2\<lparr>kv_calls := kv_calls s2 @ [KvPut c u None, KvPut (dedup_key P u) c (Some (dedupTtl e))],
              kv := (kv s)(c \<mapsto> (u, None))\<rparr>)
     else (Inr (Some c),
           s2\<lparr>kv_calls := kv_calls s2 @ [KvPut c u None, KvPut (dedup_key P u) c (Some (dedupTtl e))],
              kv := (kv s)(c \<mapsto> (u, None),
                          dedup_key P u \<mapsto> (c, Some (now_ms s div 1000 + dedupTtl e)))\<rparr>))"
proof -
  from try_codes_Some[OF t] obtain i where "c = candidate s i" by blast
  then have tc: "truthy (Some c)" by (simp add: truthy_candidate)
  from try_codes_frame[OF t] have f: "kv s2 = kv s" "now_ms s2 = now_ms s" "kv_fails s2 = kv_fails s"
    by simp_all
  show ?thesis
  proof (cases "0 < dedupTtl e")
    case True
    then show ?thesis
      using t tc f
      by (simp add: allocate_new_def await_def ret_def LINKS_put_def Let_def putDedupCode_on)
  next
    case False
    then show ?thesis
      using t tc f
      by (simp add: allocate_new_def await_def ret_def LINKS_put_def Let_def putDedupCode_off)
  qed
qed

lemma allocate_hit:
  "lookup_live P e u s = (Inr code, s1) \<Longrightarrow> truthy code \<Longrightarrow> allocate P e u s = (Inr code, s1)"
  by (simp add: allocate_def await_def ret_def)

lemma allocate_miss:
  "lookup_live P e u s = (Inr code, s1) \<Longrightarrow> \<not> truthy code \<Longrightarrow> allocate P e u s = allocate_new P e u s1"
  by (simp add: allocate_def await_def)

lemma allocate_throw:
  "lookup_live P e u s = (Inl x, s1) \<Longrightarrow> allocate P e u s = (Inl x, s1)"
  by (simp add: allocate_def await_def)

section \<open>Basic facts about the rate limiter and the request handler\<close>

lemma rateLimit_admit:
  assumes "rl_count s (rl_key P e req s) < maxReq e"
  shows "rateLimit P e req s =
    (Inr \<lparr>ok = True, remaining = maxReq e - (rl_count s (rl_key P e req s) + 1), resetIn = reset_in e s\<rparr>,
     counted P e req s)"
  using assms
  by (simp add: rateLimit_def rl_key_def rl_count_def reset_in_def counted_def await_def cache_match_def
        cache_put_def ret_def Let_def)

lemma rateLimit_deny:
  assumes "maxReq e \<le> rl_count s (rl_key P e req s)"
  shows "rateLimit P e req s =
    (Inr \<lparr>ok = False, remaining = 0, resetIn = reset_in e s\<rparr>,
     s\<lparr>cache_calls := cache_calls s @ [CacheMatch (rl_key P e req s)]\<rparr>)"
  using assms
  by (simp add: rateLimit_def rl_key_def rl_count_def reset_in_def await_def cache_match_def
        ret_def Let_def)

lemma counted_fields [simp]:
  "kv (counted P e req s) = kv s"
  "now_ms (counted P e req s) = now_ms s"
  "kv_calls (counted P e req s) = kv_calls s"
  "kv_fails (counted P e req s) = kv_fails s"
  "random (counted P e req s) = random s"
  "random_pos (counted P e req s) = random_pos s"
  by (simp_all add: counted_def Let_def)

lemma counted_count: "rl_count (counted P e req s) (rl_key P e req s) = rl_count s (rl_key P e req s) + 1"
  by (simp add: counted_def Let_def rl_count_def parseInt_String or_num_def)

lemma status_withCors [simp]: "status (withCors req r e) = status r"
  by (simp add: withCors_def cors_common_def Let_def)

lemma body_withCors [simp]: "body (withCors req r e) = body r"
  by (simp add: withCors_def cors_common_def Let_def)

lemma create_admitted:
  assumes "has_LINKS e" "rl_count s (rl_key P e req s) < maxReq e"
  shows "create P e req s =
    (case read_longUrl P req of
       Inl (msg, st) \<Rightarrow> (Inr (withCors req (error_json msg st []) e), counted P e req s)
     | Inr longUrl \<Rightarrow>
         (case allocate P e longUrl (counted P e req s) of
            (Inl x, s') \<Rightarrow> (Inl x, s')
          | (Inr None, s') \<Rightarrow> (Inr (withCors req (error_json ''Failed to allocate code'' 500 []) e), s')
          | (Inr (Some c), s') \<Rightarrow>
              (Inr (withCors req
                      (json [(''Code'', JNum 1), (''ShortUrl'', JStr (short_url e req c))] 200
                         (rl_headers \<lparr>ok = True,
                                      remaining = maxReq e - (rl_count s (rl_key P e req s) + 1),
                                      resetIn = reset_in e s\<rparr>)) e), s')))"
  using assms
  by (simp add: create_def await_def rateLimit_admit ret_def short_url_def Let_def
           split: sum.splits prod.splits option.splits)

lemma handle_post:
  "pathname req = ''/short'' \<Longrightarrow> req_method req = ''POST'' \<Longrightarrow> handle P e req = create P e req"
  by (simp add: handle_def)

lemma filter_is_put_map_get [simp]: "filter is_put (map KvGet gs) = []"
  by (induction gs) (simp_all add: is_put_def)

lemma filter_is_put_gets: "filter is_put (xs @ map KvGet gs) = filter is_put xs"
  by simp

lemma candidate_cong:
  "random s' = random s \<Longrightarrow> random_pos s' = random_pos s \<Longrightarrow> candidate s' = candidate s"
  by (rule ext) (simp add: candidate_def)

lemma no_kv_failure_cong: "kv_fails s' = kv_fails s \<Longrightarrow> no_kv_failure s' = no_kv_failure s"
  by (simp add: no_kv_failure_def)

lemma dedup_hit_cong:
  "kv s' = kv s \<Longrightarrow> now_ms s' = now_ms s \<Longrightarrow> dedup_hit P e u s' = dedup_hit P e u s"
proof -
  assume "kv s' = kv s" "now_ms s' = now_ms s"
  then have eq: "kv_lookup s' = kv_lookup s"
    by (rule kv_lookup_cong)
  show ?thesis
    unfolding dedup_hit_def eq by (rule refl)
qed

lemma allocate_exhausted:
  assumes nohit: "dedup_hit P e u s = None"
      and pres: "\<forall>i<6. truthy (kv_lookup s (candidate s i))"
      and run: "allocate P e u s = (r, s')"
  shows "(r = Inr None \<or> r = Inl KvFailure) \<and> (no_kv_failure s \<longrightarrow> r = Inr None) \<and>
         kv s' = kv s \<and> filter is_put (kv_calls s') = filter is_put (kv_calls s)"
proof -
  obtain r1 s1 where l: "lookup_live P e u s = (r1, s1)"
    by (cases "lookup_live P e u s")
  from lookup_live_frame[OF l] obtain gs where
    f1: "kv s1 = kv s" "now_ms s1 = now_ms s" "kv_fails s1 = kv_fails s" "random s1 = random s"
        "random_pos s1 = random_pos s" and c1: "kv_calls s1 = kv_calls s @ map KvGet gs"
    by blast
  show ?thesis
  proof (cases r1)
    case (Inl x)
    with l run have "r = Inl x" "s' = s1"
      by (simp_all add: allocate_throw)
    moreover from l Inl have "x = KvFailure" "\<not> no_kv_failure s"
      using lookup_live_Inl[of P e u s x s1] by simp_all
    ultimately show ?thesis
      using f1 c1 by simp
  next
    case (Inr code)
    with l lookup_live_result[of P e u s code s1] nohit have nt: "\<not> truthy code"
      by (auto simp: truthy_def split: if_splits)
    with l Inr run have an: "allocate_new P e u s1 = (r, s')"
      by (simp add: allocate_miss)
    have pres1: "\<forall>i<6. truthy (kv_lookup s1 (candidate s1 i))"
      using pres f1 by (simp add: candidate_cong[of s1 s] kv_lookup_cong[of s1 s])
    obtain r2 s2 where t: "try_codes 6 s1 = (r2, s2)"
      by (cases "try_codes 6 s1")
    from try_codes_frame[OF t] obtain gs2 where
      f2: "kv s2 = kv s1" and c2: "kv_calls s2 = kv_calls s1 @ map KvGet gs2"
      by blast
    from try_codes_present[OF pres1] t have r2: "r2 = Inr None \<or> r2 = Inl KvFailure"
      and r2n: "no_kv_failure s1 \<Longrightarrow> r2 = Inr None"
      by simp_all
    from r2 t an have "r = r2" "s' = s2"
      by (auto simp: allocate_new_none allocate_new_throw)
    with r2 r2n f1 f2 c1 c2 show ?thesis
      by (simp add: no_kv_failure_cong[of s1 s])
  qed
qed

section \<open>What a successful allocation leaves\<close>

lemma allocate_Some:
  assumes run: "allocate P e u s = (Inr (Some c), s')"
  shows "(dedup_hit P e u s = Some c \<and> kv s' = kv s \<and> (\<exists>gs. kv_calls s' = kv_calls s @ map KvGet gs)) \<or>
         (dedup_hit P e u s = None \<and>
          (\<exists>i<6. c = candidate s i \<and> \<not> truthy (kv_lookup s c) \<and>
                  (\<forall>j<i. truthy (kv_lookup s (candidate s j)))) \<and>
          kv s' = (if dedupTtl e \<le> 0 then (kv s)(c \<mapsto> (u, None))
                   else (kv s)(c \<mapsto> (u, None),
                               dedup_key P u \<mapsto> (c, Some (now_ms s div 1000 + dedupTtl e)))) \<and>
          (\<exists>gs. kv_calls s' = kv_calls s @ map KvGet gs @
                  (KvPut c u None #
                   (if dedupTtl e \<le> 0 then [] else [KvPut (dedup_key P u) c (Some (dedupTtl e))]))))"
    and "now_ms s' = now_ms s \<and> kv_fails s' = kv_fails s \<and> cache s' = cache s \<and>
         cache_calls s' = cache_calls s \<and> random s' = random s"
proof -
  obtain r1 s1 where l: "lookup_live P e u s = (r1, s1)"
    by (cases "lookup_live P e u s")
  from lookup_live_frame[OF l] obtain gs where
    f1: "kv s1 = kv s" "now_ms s1 = now_ms s" "kv_fails s1 = kv_fails s" "random s1 = random s"
        "random_pos s1 = random_pos s" "cache s1 = cache s" "cache_calls s1 = cache_calls s"
    and c1: "kv_calls s1 = kv_calls s @ map KvGet gs"
    by blast
  from l run obtain code where r1: "r1 = Inr code"
    by (cases r1) (auto simp: allocate_throw)
  note res = lookup_live_result[OF l[unfolded r1]]
  have "((dedup_hit P e u s = Some c \<and> kv s' = kv s \<and> (\<exists>gs. kv_calls s' = kv_calls s @ map KvGet gs)) \<or>
         (dedup_hit P e u s = None \<and>
          (\<exists>i<6. c = candidate s i \<and> \<not> truthy (kv_lookup s c) \<and>
                  (\<forall>j<i. truthy (kv_lookup s (candidate s j)))) \<and>
          kv s' = (if dedupTtl e \<le> 0 then (kv s)(c \<mapsto> (u, None))
                   else (kv s)(c \<mapsto> (u, None),
                               dedup_key P u \<mapsto> (c, Some (now_ms s div 1000 + dedupTtl e)))) \<and>
          (\<exists>gs. kv_calls s' = kv_calls s @ map KvGet gs @
                  (KvPut c u None #
                   (if dedupTtl e \<le> 0 then [] else [KvPut (dedup_key P u) c (Some (dedupTtl e))]))))) \<and>
        (now_ms s' = now_ms s \<and> kv_fails s' = kv_fails s \<and> cache s' = cache s \<and>
         cache_calls s' = cache_calls s \<and> random s' = random s)"
  proof (cases "truthy code")
    case True
    with l r1 run have "code = Some c" "s' = s1"
      by (simp_all add: allocate_hit)
    with True res f1 c1 show ?thesis
      by auto
  next
    case False
    with res have nohit: "dedup_hit P e u s = None"
      by simp
    from False l r1 run have an: "allocate_new P e u s1 = (Inr (Some c), s')"
      by (simp add: allocate_miss)
    obtain r2 s2 where t: "try_codes 6 s1 = (r2, s2)"
      by (cases "try_codes 6 s1")
    from an t obtain c2 where r2: "r2 = Inr (Some c2)"
      by (cases r2; cases "projr r2") (auto simp: allocate_new_throw allocate_new_none)
    from try_codes_Some[OF t[unfolded r2]] obtain i where
      i: "i < 6" "c2 = candidate s1 i" "\<not> truthy (kv_lookup s1 c2)"
         "\<forall>j<i. truthy (kv_lookup s1 (candidate s1 j))"
         "s2 = s1\<lparr>random_pos := random_pos s1 + 7 * Suc i,
                  kv_calls := kv_calls s1 @ map (\<lambda>j. KvGet (candidate s1 j)) [0 ..< Suc i]\<rparr>"
      by blast
    have kl: "kv_lookup s1 = kv_lookup s"
      using f1 by (intro kv_lookup_cong) simp_all
    have cc: "candidate s1 = candidate s"
      using f1 by (intro candidate_cong) simp_all
    have m: "map (\<lambda>j. KvGet (candidate s1 j)) [0 ..< Suc i] = map KvGet (map (candidate s1) [0 ..< Suc i])"
      by simp
    have calls2: "kv_calls s2 = kv_calls s @ map KvGet (gs @ map (candidate s1) [0 ..< Suc i])"
      using i(5) c1 by (simp only: m map_append) simp
    note found = allocate_new_found[OF t[unfolded r2], of P e u]
    from an found have cc2: "c2 = c"
      by (auto split: if_splits)
    have part1: "\<exists>i<6. c = candidate s i \<and> \<not> truthy (kv_lookup s c) \<and>
                  (\<forall>j<i. truthy (kv_lookup s (candidate s j)))"
      using i(1-4) cc2 kl cc by auto
    show ?thesis
    proof (cases "dedupTtl e \<le> 0")
      case True
      with an found cc2 have s': "s' = s2\<lparr>kv_calls := kv_calls s2 @ [KvPut c u None],
                                          kv := (kv s1)(c \<mapsto> (u, None))\<rparr>"
        by (auto split: if_splits)
      have "kv_calls s' = kv_calls s @ map KvGet (gs @ map (candidate s1) [0 ..< Suc i]) @
                  (KvPut c u None # [])"
        using s' calls2 by simp
      then have "\<exists>gs. kv_calls s' = kv_calls s @ map KvGet gs @ (KvPut c u None # [])"
        by blast
      with True s' nohit part1 f1 i(5) show ?thesis
        by simp
    next
      case off: False
      with an found cc2 have s': "s' = s2\<lparr>kv_calls := kv_calls s2 @
                                    [KvPut c u None, KvPut (dedup_key P u) c (Some (dedupTtl e))],
                                    kv := (kv s1)(c \<mapsto> (u, None),
                                       dedup_key P u \<mapsto> (c, Some (now_ms s1 div 1000 + dedupTtl e)))\<rparr>"
        by (auto split: if_splits)
      have "kv_calls s' = kv_calls s @ map KvGet (gs @ map (candidate s1) [0 ..< Suc i]) @
                  (KvPut c u None # [KvPut (dedup_key P u) c (Some (dedupTtl e))])"
        using s' calls2 by simp
      then have "\<exists>gs. kv_calls s' = kv_calls s @ map KvGet gs @
                  (KvPut c u None # [KvPut (dedup_key P u) c (Some (dedupTtl e))])"
        by blast
      with off s' nohit part1 f1 i(5) show ?thesis
        by simp
    qed
  qed
  then show "(dedup_hit P e u s = Some c \<and> kv s' = kv s \<and> (\<exists>gs. kv_calls s' = kv_calls s @ map KvGet gs)) \<or>
         (dedup_hit P e u s = None \<and>
          (\<exists>i<6. c = candidate s i \<and> \<not> truthy (kv_lookup s c) \<and>
                  (\<forall>j<i. truthy (kv_lookup s (candidate s j)))) \<and>
          kv s' = (if dedupTtl e \<le> 0 then (kv s)(c \<mapsto> (u, None))
                   else (kv s)(c \<mapsto> (u, None),
                               dedup_key P u \<mapsto> (c, Some (now_ms s div 1000 + dedupTtl e)))) \<and>
          (\<exists>gs. kv_calls s' = kv_calls s @ map KvGet gs @
                  (KvPut c u None #
                   (if dedupTtl e \<le> 0 then [] else [KvPut (dedup_key P u) c (Some (dedupTtl e))]))))"
    and "now_ms s' = now_ms s \<and> kv_fails s' = kv_fails s \<and> cache s' = cache s \<and>
         cache_calls s' = cache_calls s \<and> random s' = random s"
    by blast+
qed

lemma chars_code_char: "c \<in> set chars \<Longrightarrow> code_char c"
  by (auto simp: chars_def code_char_def)

lemma colon_not_in_chars: "CHR '':'' \<notin> set chars"
  by (simp add: chars_def)

lemma ell_not_in_chars: "CHR ''l'' \<notin> set chars"
  by (simp add: chars_def)

lemma candidate_not_dedup_key: "candidate s i \<noteq> dedup_key P u"
proof
  assume "candidate s i = dedup_key P u"
  then have "CHR '':'' \<in> set (candidate s i)"
    by (simp add: dedup_key_def)
  with candidate_chars[of s i] colon_not_in_chars show False
    by blast
qed

lemma match_code_candidate: "match_code (CHR ''/'' # candidate s i) = Some (candidate s i)"
proof -
  have "list_all code_char (candidate s i)"
    using candidate_chars[of s i] chars_code_char by (auto simp: list_all_iff)
  then show ?thesis
    by (simp add: match_code_def candidate_length)
qed

lemma candidate_not_route:
  "CHR ''/'' # candidate s i \<noteq> ''/healthz''" "CHR ''/'' # candidate s i \<noteq> ''/short''"
  "CHR ''/'' # candidate s i \<noteq> ''/''"
proof -
  show "CHR ''/'' # candidate s i \<noteq> ''/healthz''"
  proof
    assume "CHR ''/'' # candidate s i = ''/healthz''"
    then have "CHR ''l'' \<in> set (candidate s i)"
      by simp
    with candidate_chars[of s i] ell_not_in_chars show False
      by blast
  qed
  show "CHR ''/'' # candidate s i \<noteq> ''/short''"
    using candidate_length[of s i] by auto
  show "CHR ''/'' # candidate s i \<noteq> ''/''"
    using candidate_length[of s i] by auto
qed

lemma resolve_link:
  assumes "has_LINKS e" "match_code (pathname req) = Some c"
      and "req_method req = ''GET'' \<or> req_method req = ''HEAD''"
      and "kv s c = Some (u, None)" "u \<noteq> []" "\<not> kv_fails s (length (kv_calls s))"
      and "url_href P u = Some h"
  shows "resolve P e req s =
           (Inr \<lparr>status = 302, body = NoBody, headers = [(''Location'', h)]\<rparr>,
            s\<lparr>kv_calls := kv_calls s @ [KvGet c]\<rparr>)"
  using assms
  by (simp add: resolve_def Let_def await_def LINKS_get_def kv_lookup_def ret_def redirect_def)

lemma resolve_unparsable:
  assumes "has_LINKS e" "match_code (pathname req) = Some c"
      and "req_method req = ''GET'' \<or> req_method req = ''HEAD''"
      and "kv s c = Some (u, None)" "u \<noteq> []" "\<not> kv_fails s (length (kv_calls s))"
      and "url_href P u = None"
  shows "resolve P e req s = (Inl TypeError, s\<lparr>kv_calls := kv_calls s @ [KvGet c]\<rparr>)"
  using assms
  by (simp add: resolve_def Let_def await_def LINKS_get_def kv_lookup_def throw_def redirect_def)

lemma ex_href:
  "url_href example_platform url_a = Some url_a" "url_href example_platform url_b = Some url_b"
  "url_href example_platform url_c = Some ''https://example.com/''"
  by (simp_all add: example_platform_def url_a_def url_b_def url_c_def)

lemma ex_parse: "parseInt ''3600'' = Some 3600 \<and> parseInt ''0'' = Some 0 \<and> parseInt ''10'' = Some 10
   \<and> parseInt ''60'' = Some 60 \<and> parseInt ''3'' = Some 3"
  by (simp add: parseInt_def is_space_def is_digit_def digits_val_def digit_val_def)

lemma ex_dedupTtl: "dedupTtl dedup_env = 3600" "dedupTtl example_env = 0"
  by (simp_all add: dedupTtl_def dedup_env_def example_env_def or_str_def or_num_def ex_parse)

lemma ex_keys:
  "dedup_key example_platform url_a = ''D:c4ed1c218d14a0f15bba7044693ec4b0d68e0a63''"
  "dedup_key example_platform url_b = ''D:69a42cc268964607cca91895b574bdff63a7efa0''"
  by (simp_all add: dedup_key_def sha1Hex_def example_platform_def toString16.simps padStart_def
        hex_char_def url_a_def url_b_def url_c_def)

lemma ex_valid: "isHttpUrl example_platform url_a" "isHttpUrl example_platform url_b"
  "url_protocol example_platform [] = None" "length url_a \<le> 8192"
  by (simp_all add: isHttpUrl_def example_platform_def url_a_def url_b_def url_c_def)

lemma ex_urls: "url_a \<noteq> []" "url_b \<noteq> []" "url_b \<noteq> url_a"
  by (simp_all add: url_a_def url_b_def url_c_def)

lemma ex_url_c:
  "isHttpUrl example_platform url_c" "length url_c \<le> 8192" "url_c \<noteq> []"
  "''https://example.com/'' \<noteq> url_c"
  by (simp_all add: isHttpUrl_def example_platform_def url_a_def url_b_def url_c_def)

lemma try_codes_first:
  assumes "\<not> kv_fails s (length (kv_calls s))" "\<not> truthy (kv_lookup s (candidate s 0))"
  shows "try_codes (Suc n) s =
    (Inr (Some (candidate s 0)),
     s\<lparr>random_pos := random_pos s + 7, kv_calls := kv_calls s @ [KvGet (candidate s 0)]\<rparr>)"
  using assms by (simp add: await_def genCode_7 LINKS_get_def Let_def ret_def)

lemma six: "(6 :: nat) = Suc 5"
  by simp

lemma ex_hit_empty: "dedup_hit example_platform dedup_env url_a empty_world = None"
  by (simp add: dedup_hit_def ex_dedupTtl kv_lookup_def empty_world_def)

lemma ex_allocate_fresh:
  "allocate example_platform dedup_env url_a empty_world =
     (Inr (Some ''AAAAAAA''),
      empty_world\<lparr>random_pos := 7,
        kv_calls := [KvGet ''D:c4ed1c218d14a0f15bba7044693ec4b0d68e0a63'', KvGet ''AAAAAAA'',
                     KvPut ''AAAAAAA'' url_a None,
                     KvPut ''D:c4ed1c218d14a0f15bba7044693ec4b0d68e0a63'' ''AAAAAAA'' (Some 3600)],
        kv := [''AAAAAAA'' \<mapsto> (url_a, None),
               ''D:c4ed1c218d14a0f15bba7044693ec4b0d68e0a63'' \<mapsto> (''AAAAAAA'', Some 1700003600)]\<rparr>)"
proof -
  let ?s1 = "empty_world\<lparr>kv_calls := [KvGet ''D:c4ed1c218d14a0f15bba7044693ec4b0d68e0a63'']\<rparr>"
  have l: "lookup_live example_platform dedup_env url_a empty_world = (Inr None, ?s1)"
    by (simp add: lookup_live_on ex_dedupTtl ex_keys Let_def empty_world_def kv_lookup_def)
  have c: "candidate ?s1 0 = ''AAAAAAA''"
    by (simp add: candidate_zeros empty_world_def)
  have t: "try_codes 6 ?s1 =
    (Inr (Some ''AAAAAAA''),
     ?s1\<lparr>random_pos := 7, kv_calls := [KvGet ''D:c4ed1c218d14a0f15bba7044693ec4b0d68e0a63'', KvGet ''AAAAAAA'']\<rparr>)"
    unfolding six
    by (subst try_codes_first) (simp_all add: c, simp_all add: empty_world_def kv_lookup_def truthy_def)
  have "allocate example_platform dedup_env url_a empty_world = allocate_new example_platform dedup_env url_a ?s1"
    using l by (rule allocate_miss) (simp add: truthy_def)
  also have "\<dots> = (Inr (Some ''AAAAAAA''),
      empty_world\<lparr>random_pos := 7,
        kv_calls := [KvGet ''D:c4ed1c218d14a0f15bba7044693ec4b0d68e0a63'', KvGet ''AAAAAAA'',
                     KvPut ''AAAAAAA'' url_a None,
                     KvPut ''D:c4ed1c218d14a0f15bba7044693ec4b0d68e0a63'' ''AAAAAAA'' (Some 3600)],
        kv := [''AAAAAAA'' \<mapsto> (url_a, None),
               ''D:c4ed1c218d14a0f15bba7044693ec4b0d68e0a63'' \<mapsto> (''AAAAAAA'', Some 1700003600)]\<rparr>)"
    by (simp add: allocate_new_found[OF t] ex_dedupTtl ex_keys) (simp add: empty_world_def)
  finally show ?thesis .
qed

lemma allocate_first_candidate:
  assumes nohit: "dedup_hit P e u s = None" and nf: "no_kv_failure s"
      and free: "\<not> truthy (kv_lookup s (candidate s 0))"
  shows "fst (allocate P e u s) = Inr (Some (candidate s 0))"
    and "kv (snd (allocate P e u s)) =
           (if dedupTtl e \<le> 0 then (kv s)(candidate s 0 \<mapsto> (u, None))
            else (kv s)(candidate s 0 \<mapsto> (u, None),
                        dedup_key P u \<mapsto> (candidate s 0, Some (now_ms s div 1000 + dedupTtl e))))"
proof -
  obtain r1 s1 where l: "lookup_live P e u s = (r1, s1)"
    by (cases "lookup_live P e u s")
  from lookup_live_frame[OF l] have
    f1: "kv s1 = kv s" "now_ms s1 = now_ms s" "kv_fails s1 = kv_fails s" "random s1 = random s"
        "random_pos s1 = random_pos s"
    by simp_all
  from l nf obtain code where r1: "r1 = Inr code"
    using lookup_live_Inl[of P e u s _ s1] by (cases r1) auto
  from lookup_live_result[OF l[unfolded r1]] nohit have nt: "\<not> truthy code"
    by (auto simp: truthy_def split: if_splits)
  have kl: "kv_lookup s1 = kv_lookup s"
    using f1 by (intro kv_lookup_cong) simp_all
  have cc: "candidate s1 = candidate s"
    using f1 by (intro candidate_cong) simp_all
  have nf1: "\<And>n. \<not> kv_fails s1 n"
    using nf f1 by (simp add: no_kv_failure_def)
  have t: "try_codes 6 s1 =
    (Inr (Some (candidate s 0)),
     s1\<lparr>random_pos := random_pos s1 + 7, kv_calls := kv_calls s1 @ [KvGet (candidate s 0)]\<rparr>)"
    unfolding six using try_codes_first[of s1 5] free nf1 kl cc by simp
  have a: "allocate P e u s = allocate_new P e u s1"
    using l r1 nt by (simp add: allocate_miss)
  show "fst (allocate P e u s) = Inr (Some (candidate s 0))"
    unfolding a using nf1 by (simp add: allocate_new_found[OF t])
  show "kv (snd (allocate P e u s)) =
           (if dedupTtl e \<le> 0 then (kv s)(candidate s 0 \<mapsto> (u, None))
            else (kv s)(candidate s 0 \<mapsto> (u, None),
                        dedup_key P u \<mapsto> (candidate s 0, Some (now_ms s div 1000 + dedupTtl e))))"
    unfolding a using nf1 f1 by (simp add: allocate_new_found[OF t])
qed

lemma ex_nf: "no_kv_failure empty_world" "no_kv_failure stale_world" "no_kv_failure stale_world_b"
  by (simp_all add: no_kv_failure_def empty_world_def stale_world_def stale_world_b_def)

lemma ex_now:
  "now_ms empty_world = 1700000000000" "now_ms stale_world = 1700000000000"
  "now_ms stale_world_b = 1700000000000" "now_ms race_world = 1700000000000"
  "now_ms full_world = 1700000000000" "now_ms failing_world = 1700000000000"
  by (simp_all add: empty_world_def stale_world_def stale_world_b_def race_world_def full_world_def
        failing_world_def)

lemma ex_stale:
  "kv_lookup stale_world (dedup_key example_platform url_a) = Some ''AAAAAAA''"
  "kv_lookup stale_world ''AAAAAAA'' = None"
  "kv_lookup stale_world_b (dedup_key example_platform url_a) = Some ''BBBBBBB''"
  "kv_lookup stale_world_b ''BBBBBBB'' = None"
  "kv_lookup stale_world_b ''AAAAAAA'' = None"
  by (simp_all add: kv_lookup_def stale_world_def stale_world_b_def empty_world_def ex_keys)

lemma ex_stale_cand: "candidate stale_world i = ''AAAAAAA''" "candidate stale_world_b i = ''AAAAAAA''"
  by (simp_all add: candidate_zeros stale_world_def stale_world_b_def empty_world_def)

lemma allocate_records:
  assumes on: "0 < dedupTtl e" and run: "allocate P e u s = (Inr (Some c), s')"
  shows "kv_lookup s' (dedup_key P u) = Some c \<and> c \<noteq> []"
    and "dedup_hit P e u s = None \<Longrightarrow> t div 1000 < now_ms s div 1000 + dedupTtl e \<Longrightarrow>
           kv_lookup (s'\<lparr>now_ms := t\<rparr>) (dedup_key P u) = Some c"
    and "length (filter is_link_put (drop (length (kv_calls s)) (kv_calls s'))) \<le> 1"
proof -
  note cases = allocate_Some(1)[OF run]
  note frame = allocate_Some(2)[OF run]
  have g: "filter is_link_put (map KvGet gs) = []" for gs
    by (induction gs) (simp_all add: is_link_put_def)
  show "kv_lookup s' (dedup_key P u) = Some c \<and> c \<noteq> []"
  proof (cases "dedup_hit P e u s")
    case (Some d)
    with cases have d: "d = c" and k: "kv s' = kv s"
      by auto
    have "kv_lookup s' = kv_lookup s"
      using k frame by (intro kv_lookup_cong) simp_all
    moreover from Some d on have "kv_lookup s (dedup_key P u) = Some c \<and> c \<noteq> []"
      by (auto simp: dedup_hit_def split: option.splits if_splits)
    ultimately show ?thesis
      by simp
  next
    case None
    with cases on obtain i where c: "c = candidate s i"
      and k: "kv s' = (kv s)(c \<mapsto> (u, None),
                            dedup_key P u \<mapsto> (c, Some (now_ms s div 1000 + dedupTtl e)))"
      by auto
    have "c \<noteq> []"
      using c candidate_length[of s i] by auto
    with k on frame show ?thesis
      by (simp add: kv_lookup_def)
  qed
  show "kv_lookup (s'\<lparr>now_ms := t\<rparr>) (dedup_key P u) = Some c"
    if None: "dedup_hit P e u s = None" and t: "t div 1000 < now_ms s div 1000 + dedupTtl e"
  proof -
    from None cases on have
      k: "kv s' = (kv s)(c \<mapsto> (u, None),
                            dedup_key P u \<mapsto> (c, Some (now_ms s div 1000 + dedupTtl e)))"
      by auto
    with t show ?thesis
      by (simp add: kv_lookup_def)
  qed
  show "length (filter is_link_put (drop (length (kv_calls s)) (kv_calls s'))) \<le> 1"
    using cases by (auto simp: g is_link_put_def)
qed

lemma kv_lookup_counted [simp]: "kv_lookup (counted P e req s) = kv_lookup s"
  by (rule kv_lookup_cong) simp_all

lemma candidate_counted [simp]: "candidate (counted P e req s) = candidate s"
  by (rule candidate_cong) simp_all

lemma put_link_kv:
  assumes "try_codes 6 s1 = (Inr (Some c), s2)" "LINKS_put c u None s2 = (Inr (), s3)"
  shows "kv s3 c = Some (u, None) \<and> kv (snd (putDedupCode P e u c s3)) c = Some (u, None) \<and>
         fst (putDedupCode P e u c s3) =
           (if 0 < dedupTtl e \<and> kv_fails s3 (length (kv_calls s3)) then Inl KvFailure else Inr ())"
proof -
  from try_codes_Some[OF assms(1)] obtain i where c: "c = candidate s1 i"
    by blast
  have ne: "dedup_key P u \<noteq> c"
    using candidate_not_dedup_key[of s1 i P u] c by simp
  have k: "kv s3 c = Some (u, None)"
    using assms(2) by (auto simp: LINKS_put_def Let_def split: if_splits)
  show ?thesis
  proof (cases "0 < dedupTtl e")
    case True
    with k ne show ?thesis
      by (simp add: putDedupCode_on LINKS_put_def Let_def)
  next
    case False
    with k show ?thesis
      by (simp add: putDedupCode_off)
  qed
qed

lemma ex_failing_start:
  "kv_lookup failing_start k = None" "kv_calls failing_start = []"
  "kv_fails failing_start = (\<lambda>n. n = 3)" "random failing_start = (\<lambda>n. 0)"
  "random_pos failing_start = 0" "now_ms failing_start = 1700000000000" "kv failing_start = Map.empty"
  by (simp_all add: failing_start_def failing_world_def empty_world_def kv_lookup_def)

lemma ex_failing_looked:
  "lookup_live example_platform dedup_env url_a failing_start = (Inr None, failing_looked)"
  "failing_looked = failing_start\<lparr>kv_calls := [KvGet ''D:c4ed1c218d14a0f15bba7044693ec4b0d68e0a63'']\<rparr>"
proof -
  have "lookup_live example_platform dedup_env url_a failing_start =
      (Inr None, failing_start\<lparr>kv_calls := [KvGet ''D:c4ed1c218d14a0f15bba7044693ec4b0d68e0a63'']\<rparr>)"
    by (simp add: lookup_live_on ex_dedupTtl ex_keys Let_def ex_failing_start)
  then show "lookup_live example_platform dedup_env url_a failing_start = (Inr None, failing_looked)"
    and "failing_looked = failing_start\<lparr>kv_calls := [KvGet ''D:c4ed1c218d14a0f15bba7044693ec4b0d68e0a63'']\<rparr>"
    by (simp_all add: failing_looked_def)
qed

lemma ex_failing_chosen:
  "try_codes 6 failing_looked = (Inr (Some ''AAAAAAA''), failing_chosen)"
  "failing_chosen = failing_start\<lparr>random_pos := 7,
      kv_calls := [KvGet ''D:c4ed1c218d14a0f15bba7044693ec4b0d68e0a63'', KvGet ''AAAAAAA'']\<rparr>"
proof -
  have c: "candidate failing_looked 0 = ''AAAAAAA''"
    by (simp add: candidate_zeros ex_failing_looked(2) ex_failing_start)
  have "try_codes 6 failing_looked = (Inr (Some ''AAAAAAA''), failing_start\<lparr>random_pos := 7,
      kv_calls := [KvGet ''D:c4ed1c218d14a0f15bba7044693ec4b0d68e0a63'', KvGet ''AAAAAAA'']\<rparr>)"
    unfolding six
    by (subst try_codes_first)
       (simp_all add: c, simp_all add: ex_failing_looked(2) ex_failing_start truthy_def)
  then show "try_codes 6 failing_looked = (Inr (Some ''AAAAAAA''), failing_chosen)"
    and "failing_chosen = failing_start\<lparr>random_pos := 7,
      kv_calls := [KvGet ''D:c4ed1c218d14a0f15bba7044693ec4b0d68e0a63'', KvGet ''AAAAAAA'']\<rparr>"
    by (simp_all add: failing_chosen_def)
qed

lemma ex_failing_written:
  "LINKS_put ''AAAAAAA'' url_a None failing_chosen = (Inr (), failing_written)"
  "failing_written = failing_start\<lparr>random_pos := 7,
      kv_calls := [KvGet ''D:c4ed1c218d14a0f15bba7044693ec4b0d68e0a63'', KvGet ''AAAAAAA'',
                   KvPut ''AAAAAAA'' url_a None],
      kv := [''AAAAAAA'' \<mapsto> (url_a, None)]\<rparr>"
proof -
  have "LINKS_put ''AAAAAAA'' url_a None failing_chosen = (Inr (), failing_start\<lparr>random_pos := 7,
      kv_calls := [KvGet ''D:c4ed1c218d14a0f15bba7044693ec4b0d68e0a63'', KvGet ''AAAAAAA'',
                   KvPut ''AAAAAAA'' url_a None],
      kv := [''AAAAAAA'' \<mapsto> (url_a, None)]\<rparr>)"
    by (simp add: LINKS_put_def Let_def ex_failing_chosen(2) ex_failing_start)
  then show "LINKS_put ''AAAAAAA'' url_a None failing_chosen = (Inr (), failing_written)"
    and "failing_written = failing_start\<lparr>random_pos := 7,
      kv_calls := [KvGet ''D:c4ed1c218d14a0f15bba7044693ec4b0d68e0a63'', KvGet ''AAAAAAA'',
                   KvPut ''AAAAAAA'' url_a None],
      kv := [''AAAAAAA'' \<mapsto> (url_a, None)]\<rparr>"
    by (simp_all add: failing_written_def)
qed

lemma ex_failing_record:
  "putDedupCode example_platform dedup_env url_a ''AAAAAAA'' failing_written =
     (Inl KvFailure,
      failing_written\<lparr>kv_calls := [KvGet ''D:c4ed1c218d14a0f15bba7044693ec4b0d68e0a63'', KvGet ''AAAAAAA'',
                   KvPut ''AAAAAAA'' url_a None,
                   KvPut ''D:c4ed1c218d14a0f15bba7044693ec4b0d68e0a63'' ''AAAAAAA'' (Some 3600)]\<rparr>)"
  by (simp add: putDedupCode_on ex_dedupTtl ex_keys LINKS_put_def Let_def ex_failing_written(2)
        ex_failing_start)

lemma ex_post_a:
  "has_LINKS dedup_env" "pathname post_a = ''/short''" "req_method post_a = ''POST''"
  "read_longUrl example_platform post_a = Inr url_a"
  "rl_count failing_world (rl_key example_platform dedup_env post_a failing_world) < maxReq dedup_env"
proof -
  show "has_LINKS dedup_env" "pathname post_a = ''/short''" "req_method post_a = ''POST''"
    by (simp_all add: dedup_env_def example_env_def post_a_def)
  show "read_longUrl example_platform post_a = Inr url_a"
    by (simp add: read_longUrl_def post_a_def trim_def is_space_def base64ToUtf8_def pad4.simps
          example_platform_def isHttpUrl_def url_a_def url_b_def url_c_def)
  show "rl_count failing_world (rl_key example_platform dedup_env post_a failing_world) < maxReq dedup_env"
    by (simp add: rl_count_def failing_world_def empty_world_def maxReq_def dedup_env_def example_env_def
          or_str_def or_num_def ex_parse)
qed

lemma ex_failing_handle:
  "handle example_platform dedup_env post_a failing_world =
     (Inl KvFailure,
      failing_written\<lparr>kv_calls := [KvGet ''D:c4ed1c218d14a0f15bba7044693ec4b0d68e0a63'', KvGet ''AAAAAAA'',
                   KvPut ''AAAAAAA'' url_a None,
                   KvPut ''D:c4ed1c218d14a0f15bba7044693ec4b0d68e0a63'' ''AAAAAAA'' (Some 3600)]\<rparr>)"
proof -
  have "allocate example_platform dedup_env url_a failing_start =
          allocate_new example_platform dedup_env url_a failing_looked"
    using ex_failing_looked(1) by (rule allocate_miss) (simp add: truthy_def)
  also have "\<dots> = (Inl KvFailure,
      failing_written\<lparr>kv_calls := [KvGet ''D:c4ed1c218d14a0f15bba7044693ec4b0d68e0a63'', KvGet ''AAAAAAA'',
                   KvPut ''AAAAAAA'' url_a None,
                   KvPut ''D:c4ed1c218d14a0f15bba7044693ec4b0d68e0a63'' ''AAAAAAA'' (Some 3600)]\<rparr>)"
    by (simp add: allocate_new_def await_def ex_failing_chosen(1) ex_failing_written(1)
          ex_failing_record truthy_def)
  finally show ?thesis
    using ex_post_a by (simp add: handle_post create_admitted failing_start_def)
qed

lemma code_char_alnum: "code_char c = (is_alnum c \<or> c = CHR ''_'' \<or> c = CHR ''-'')"
  by (auto simp: code_char_def is_alnum_def Let_def)

lemma match_code_iff:
  "match_code (CHR ''/'' # t) =
     (if 3 \<le> length t \<and> length t \<le> 64 \<and> (\<forall>c \<in> set t. is_alnum c \<or> c = CHR ''_'' \<or> c = CHR ''-'')
      then Some t else None)"
  by (simp add: match_code_def list_all_iff code_char_alnum)

lemma route_names_match:
  "match_code ''/healthz'' = Some ''healthz''" "match_code ''/short'' = Some ''short''"
  by (simp_all add: match_code_def code_char_def)

lemma String_small: "String 1 = ''1''" "String 2 = ''2''" "String 3 = ''3''"
  by (simp_all add: String_def show_nat.simps digit_char_def)

lemma keyUrl_inj: "keyUrl P b ip = keyUrl P b' ip \<Longrightarrow> b = b'"
  by (simp add: keyUrl_def String_inj)

lemma rl_count_None: "cache s k = None \<Longrightarrow> rl_count s k = 0"
  by (simp add: rl_count_def)

lemma rl_count_String: "cache s k = Some (String n) \<Longrightarrow> rl_count s k = n"
  by (simp add: rl_count_def parseInt_String or_num_def)

lemma admit_at_allowed:
  assumes "windowSec e = 60" "maxReq e = 3" "t div 1000 div 60 = b"
      and "rl_count s (keyUrl P b (getClientIp req)) = n" "n < 3"
  shows "admit_at P e req t s =
    (Inr \<lparr>ok = True, remaining = 2 - n, resetIn = (b + 1) * 60 - t div 1000\<rparr>,
     s\<lparr>now_ms := t,
       cache_calls := cache_calls s @
         [CacheMatch (keyUrl P b (getClientIp req)),
          CachePut (keyUrl P b (getClientIp req)) (String (n + 1)) (max 1 ((b + 1) * 60 - t div 1000))],
       cache := (cache s)(keyUrl P b (getClientIp req) \<mapsto> String (n + 1))\<rparr>)"
proof -
  let ?s = "s\<lparr>now_ms := t\<rparr>"
  have k: "rl_key P e req ?s = keyUrl P b (getClientIp req)"
    using assms(1,3) by (simp add: rl_key_def)
  have c: "rl_count ?s (keyUrl P b (getClientIp req)) = n"
    using assms(4) by (simp add: rl_count_def)
  have r: "reset_in e ?s = (b + 1) * 60 - t div 1000"
    using assms(1,3) by (simp add: reset_in_def)
  have "rl_count ?s (rl_key P e req ?s) < maxReq e"
    using k c assms(2,5) by simp
  from rateLimit_admit[OF this] show ?thesis
    using k c r assms(2) by (simp add: admit_at_def counted_def Let_def)
qed

lemma admit_at_denied:
  assumes "windowSec e = 60" "maxReq e = 3" "t div 1000 div 60 = b"
      and "rl_count s (keyUrl P b (getClientIp req)) = n" "3 \<le> n"
  shows "admit_at P e req t s =
    (Inr \<lparr>ok = False, remaining = 0, resetIn = (b + 1) * 60 - t div 1000\<rparr>,
     s\<lparr>now_ms := t,
       cache_calls := cache_calls s @ [CacheMatch (keyUrl P b (getClientIp req))]\<rparr>)"
proof -
  let ?s = "s\<lparr>now_ms := t\<rparr>"
  have k: "rl_key P e req ?s = keyUrl P b (getClientIp req)"
    using assms(1,3) by (simp add: rl_key_def)
  have c: "rl_count ?s (keyUrl P b (getClientIp req)) = n"
    using assms(4) by (simp add: rl_count_def)
  have r: "reset_in e ?s = (b + 1) * 60 - t div 1000"
    using assms(1,3) by (simp add: reset_in_def)
  have "maxReq e \<le> rl_count ?s (rl_key P e req ?s)"
    using k c assms(2,5) by simp
  from rateLimit_deny[OF this] show ?thesis
    using k r by (simp add: admit_at_def)
qed

lemma ex_rl_env: "windowSec rl_env = 60" "maxReq rl_env = 3"
  by (simp_all add: windowSec_def maxReq_def rl_env_def example_env_def or_str_def or_num_def ex_parse)

lemma ex_empty_cache: "cache empty_world k = None"
  by (simp add: empty_world_def)

lemma allocate_new_cache:
  assumes "allocate_new P e u s = (r, s')"
  shows "cache s' = cache s \<and> cache_calls s' = cache_calls s"
proof -
  obtain r2 s2 where t: "try_codes 6 s = (r2, s2)"
    by (cases "try_codes 6 s")
  from try_codes_frame[OF t] have f: "cache s2 = cache s" "cache_calls s2 = cache_calls s"
    by simp_all
  show ?thesis
  proof (cases r2)
    case (Inl x)
    with t assms f show ?thesis
      by (simp add: allocate_new_throw)
  next
    case (Inr found)
    show ?thesis
    proof (cases found)
      case None
      with Inr t assms f show ?thesis
        by (simp add: allocate_new_none)
    next
      case (Some c)
      with Inr t have "try_codes 6 s = (Inr (Some c), s2)"
        by simp
      from allocate_new_found[OF this, of P e u] assms f show ?thesis
        by (auto split: if_splits)
    qed
  qed
qed

lemma allocate_cache:
  assumes "allocate P e u s = (r, s')"
  shows "cache s' = cache s \<and> cache_calls s' = cache_calls s"
proof -
  obtain r1 s1 where l: "lookup_live P e u s = (r1, s1)"
    by (cases "lookup_live P e u s")
  from lookup_live_frame[OF l] have f: "cache s1 = cache s" "cache_calls s1 = cache_calls s"
    by simp_all
  show ?thesis
  proof (cases r1)
    case (Inl x)
    with l assms f show ?thesis
      by (simp add: allocate_throw)
  next
    case (Inr code)
    show ?thesis
    proof (cases "truthy code")
      case True
      with Inr l assms f show ?thesis
        by (simp add: allocate_hit)
    next
      case False
      with Inr l assms have "allocate_new P e u s1 = (r, s')"
        by (simp add: allocate_miss)
      from allocate_new_cache[OF this] f show ?thesis
        by simp
    qed
  qed
qed

lemma read_longUrl_status: "read_longUrl P req = Inl (msg, st) \<Longrightarrow> st = 400 \<or> st = 413"
  by (auto simp: read_longUrl_def split: option.splits form_value.splits if_splits)

lemma counted_cache:
  "cache (counted P e req s) = (cache s)(rl_key P e req s \<mapsto> String (rl_count s (rl_key P e req s) + 1))"
  "cache_calls (counted P e req s) = cache_calls s @
     [CacheMatch (rl_key P e req s),
      CachePut (rl_key P e req s) (String (rl_count s (rl_key P e req s) + 1)) (max 1 (reset_in e s))]"
  by (simp_all add: counted_def Let_def)

lemma rl_count_cong: "cache s' = cache s \<Longrightarrow> rl_count s' = rl_count s"
  by (rule ext) (simp add: rl_count_def)

lemma create_counts:
  assumes "has_LINKS e" "rl_count s (rl_key P e req s) < maxReq e"
  shows "cache (snd (create P e req s)) = cache (counted P e req s) \<and>
         cache_calls (snd (create P e req s)) = cache_calls (counted P e req s)"
proof (cases "read_longUrl P req")
  case (Inl a)
  then show ?thesis
    using assms by (cases a) (simp add: create_admitted)
next
  case (Inr u)
  obtain r s' where a: "allocate P e u (counted P e req s) = (r, s')"
    by (cases "allocate P e u (counted P e req s)")
  from allocate_cache[OF a] a Inr assms show ?thesis
    by (simp add: create_admitted split: sum.splits option.splits)
qed

lemma ex_post_empty:
  "has_LINKS example_env" "pathname post_empty = ''/short''" "req_method post_empty = ''POST''"
  "read_longUrl example_platform post_empty = Inl (''Missing longUrl'', 400)"
  "rl_count empty_world (rl_key example_platform example_env post_empty empty_world) = 0"
  "maxReq example_env = 10"
  by (simp_all add: example_env_def post_empty_def post_a_def read_longUrl_def rl_count_None
        ex_empty_cache maxReq_def or_str_def or_num_def ex_parse)

section \<open>The alphabet of the code generator\<close>

lemma chars_sub: "\<forall>c \<in> set chars. is_alnum c \<and> c \<notin> set ''0O1lI''"
  by (simp add: chars_def is_alnum_def)

lemma alnum_enum: "is_alnum c \<Longrightarrow> c \<in> set ''0123456789ABCDEFGHIJKLMNOPQRSTUVWXYZabcdefghijklmnopqrstuvwxyz''"
proof -
  assume a: "is_alnum c"
  let ?ns = "[48 ..< 58] @ [65 ..< 91] @ [97 ..< 123] :: nat list"
  have "(of_char c :: nat) \<in> {48 ..< 58} \<union> ({65 ..< 91} \<union> {97 ..< 123})"
    using a by (auto simp: is_alnum_def Let_def)
  then have "(of_char c :: nat) \<in> set ?ns"
    by (simp only: set_append set_upt)
  then have "char_of (of_char c :: nat) \<in> set (map char_of ?ns)"
    by (simp only: set_map image_eqI)
  moreover have "map char_of ?ns = ''0123456789ABCDEFGHIJKLMNOPQRSTUVWXYZabcdefghijklmnopqrstuvwxyz''"
    by code_simp
  ultimately show ?thesis by simp
qed

lemma chars_sup: "is_alnum c \<Longrightarrow> c \<notin> set ''0O1lI'' \<Longrightarrow> c \<in> set chars"
  using alnum_enum[of c] by (auto simp: chars_def)

lemma chars_alphabet: "set chars = {c. is_alnum c \<and> c \<notin> set ''0O1lI''}"
  using chars_sub chars_sup by blast

lemma chars_card: "card (set chars) = 57"
proof -
  have "distinct chars" by (simp add: chars_def)
  then have "card (set chars) = length chars" by (rule distinct_card)
  then show ?thesis by (simp add: chars_length)
qed

lemma genCode_quota: "65536 < n \<Longrightarrow> genCode n s = (Inl QuotaExceeded, s)"
  by (simp add: genCode_def await_def getRandomValues_def)

text \<open>
  Claim C2, as the code has it. The alphabet is the letters and digits without \<open>0\<close>,
  \<open>O\<close>, \<open>1\<close>, \<open>l\<close> and \<open>I\<close>, which makes 57 symbols without repetition, and
  for every length \<open>n\<close> that the random source serves in one call (at most 65536 bytes)
  \<open>genCode n\<close> returns a string of exactly \<open>n\<close> characters of the alphabet and takes
  \<open>n\<close> bytes from the random source.
\<close>

theorem genCode_alphabet:
  "set chars = {c. is_alnum c \<and> c \<notin> set ''0O1lI''} \<and> distinct chars \<and> card (set chars) = 57 \<and>
   (n \<le> 65536 \<longrightarrow>
      (\<exists>c. genCode n s = (Inr c, s\<lparr>random_pos := random_pos s + n\<rparr>) \<and>
           length c = n \<and> set c \<subseteq> set chars))"
proof -
  have d: "distinct chars"
    by (simp add: chars_def)
  have g: "\<exists>c. genCode n s = (Inr c, s\<lparr>random_pos := random_pos s + n\<rparr>) \<and>
               length c = n \<and> set c \<subseteq> set chars" if n: "n \<le> 65536"
  proof -
    have m: "\<And>k. chars ! (k mod length chars) \<in> set chars"
      by (rule nth_mem) (simp add: chars_length)
    let ?c = "map (\<lambda>i. chars ! (unat (random s (random_pos s + i)) mod length chars)) [0 ..< n]"
    have "set ?c \<subseteq> set chars"
      using m by auto
    with n show ?thesis
      by (intro exI[of _ ?c]) (simp add: genCode_ok)
  qed
  from chars_alphabet d chars_card g show ?thesis
    by blast
qed

theorem genCode_alphabet_witness:
  "(7 :: nat) \<le> 65536 \<and>
   (\<exists>c. genCode 7 empty_world = (Inr c, empty_world\<lparr>random_pos := random_pos empty_world + 7\<rparr>) \<and>
        length c = 7 \<and> set c \<subseteq> set chars)"
proof -
  have "(7 :: nat) \<le> 65536"
    by simp
  with genCode_alphabet [of 7 empty_world] show ?thesis
    by blast
qed

text \<open>
  Claim C2 as the specification words it does not hold: the alphabet has 57 symbols, not 58,
  and a length above 65536 makes the random source refuse, so that \<open>genCode\<close> throws.
\<close>

theorem genCode_alphabet_counterexample:
  "card (set chars) \<noteq> 58 \<and> genCode 65537 empty_world = (Inl QuotaExceeded, empty_world)"
  by (simp add: chars_card genCode_quota)

section \<open>Deduplication switched off\<close>

text \<open>
  Claim C9. When the configured time to live is not positive, the lookup of the
  deduplication index returns "absent" and the record step writes nothing: both leave the
  world as it is, so no call reaches the namespace. This is the default: with
  \<open>DEDUP_TTL_SEC\<close> not set the time to live is 0.
\<close>

theorem dedup_disabled_noop:
  "(dedupTtl e \<le> 0 \<longrightarrow>
      getDedupCode P e u s = (Inr None, s) \<and> putDedupCode P e u c s = (Inr (), s)) \<and>
   (DEDUP_TTL_SEC e = None \<longrightarrow> dedupTtl e = 0)"
proof -
  have "parseInt ''0'' = Some 0"
    by (simp add: parseInt_def is_space_def is_digit_def digits_val_def digit_val_def)
  then have "DEDUP_TTL_SEC e = None \<longrightarrow> dedupTtl e = 0"
    by (simp add: dedupTtl_def or_str_def or_num_def)
  then show ?thesis
    by (simp add: getDedupCode_off putDedupCode_off)
qed

theorem dedup_disabled_noop_witness:
  "DEDUP_TTL_SEC example_env = None \<and> dedupTtl example_env \<le> 0 \<and>
   getDedupCode example_platform example_env url_a empty_world = (Inr None, empty_world) \<and>
   putDedupCode example_platform example_env url_a ''AAAAAAA'' empty_world = (Inr (), empty_world)"
  using dedup_disabled_noop [of example_env example_platform url_a empty_world "''AAAAAAA''"]
  by (simp add: example_env_def)

section \<open>Exhausted allocation\<close>

text \<open>
  Claim C4. The loop is entered when the deduplication index gives no live code. If then each
  of the six candidates that the generator draws is present in the namespace, that is, the
  read of it returns a link (a value that \<open>!exists\<close> does not take for absent, as every
  URL is), \<open>allocate\<close> ends without a code or, when a read throws, with that exception;
  when no call throws it ends without a code, and \<open>handle\<close> answers with status 500 and
  the message "Failed to allocate code". In every case the namespace holds what it held and no
  write has been asked of it.
\<close>

theorem allocation_exhausted:
  assumes "dedup_hit P e u s = None"
      and "\<forall>i<6. truthy (kv_lookup s (candidate s i))"
  shows "(fst (allocate P e u s) = Inr None \<or> fst (allocate P e u s) = Inl KvFailure) \<and>
         (no_kv_failure s \<longrightarrow> fst (allocate P e u s) = Inr None) \<and>
         kv (snd (allocate P e u s)) = kv s \<and>
         filter is_put (kv_calls (snd (allocate P e u s))) = filter is_put (kv_calls s) \<and>
         (no_kv_failure s \<and> has_LINKS e \<and> pathname req = ''/short'' \<and> req_method req = ''POST'' \<and>
          rl_count s (rl_key P e req s) < maxReq e \<and> read_longUrl P req = Inr u \<longrightarrow>
            fst (handle P e req s) = Inr (withCors req (error_json ''Failed to allocate code'' 500 []) e) \<and>
            status (withCors req (error_json ''Failed to allocate code'' 500 []) e) = 500 \<and>
            kv (snd (handle P e req s)) = kv s \<and>
            filter is_put (kv_calls (snd (handle P e req s))) = filter is_put (kv_calls s))"
proof -
  have a: "(fst (allocate P e u s) = Inr None \<or> fst (allocate P e u s) = Inl KvFailure) \<and>
         (no_kv_failure s \<longrightarrow> fst (allocate P e u s) = Inr None) \<and>
         kv (snd (allocate P e u s)) = kv s \<and>
         filter is_put (kv_calls (snd (allocate P e u s))) = filter is_put (kv_calls s)"
    using allocate_exhausted[OF assms, of "fst (allocate P e u s)" "snd (allocate P e u s)"]
    by simp
  have h: "fst (handle P e req s) = Inr (withCors req (error_json ''Failed to allocate code'' 500 []) e) \<and>
            status (withCors req (error_json ''Failed to allocate code'' 500 []) e) = 500 \<and>
            kv (snd (handle P e req s)) = kv s \<and>
            filter is_put (kv_calls (snd (handle P e req s))) = filter is_put (kv_calls s)"
    if nf: "no_kv_failure s" and l: "has_LINKS e" and p: "pathname req = ''/short''"
      and m: "req_method req = ''POST''" and adm: "rl_count s (rl_key P e req s) < maxReq e"
      and rd: "read_longUrl P req = Inr u"
  proof -
    let ?s1 = "counted P e req s"
    obtain r s' where run: "allocate P e u ?s1 = (r, s')"
      by (cases "allocate P e u ?s1")
    have nohit1: "dedup_hit P e u ?s1 = None"
      using assms(1) by (simp add: dedup_hit_cong[of ?s1 s])
    have pres1: "\<forall>i<6. truthy (kv_lookup ?s1 (candidate ?s1 i))"
      using assms(2) by (simp add: candidate_cong[of ?s1 s] kv_lookup_cong[of ?s1 s])
    have nf1: "no_kv_failure ?s1"
      using nf by (simp add: no_kv_failure_cong[of ?s1 s])
    from allocate_exhausted[OF nohit1 pres1 run] nf1
    have "r = Inr None" "kv s' = kv s" "filter is_put (kv_calls s') = filter is_put (kv_calls s)"
      by simp_all
    with run l adm rd p m show ?thesis
      by (simp add: handle_post create_admitted error_json_def json_def)
  qed
  from a h show ?thesis
    by blast
qed

theorem allocation_exhausted_witness:
  "dedup_hit example_platform example_env url_a full_world = None \<and>
   truthy (kv_lookup full_world (candidate full_world 0)) \<and>
   truthy (kv_lookup full_world (candidate full_world 1)) \<and>
   truthy (kv_lookup full_world (candidate full_world 2)) \<and>
   truthy (kv_lookup full_world (candidate full_world 3)) \<and>
   truthy (kv_lookup full_world (candidate full_world 4)) \<and>
   truthy (kv_lookup full_world (candidate full_world 5)) \<and>
   no_kv_failure full_world \<and>
   fst (allocate example_platform example_env url_a full_world) = Inr None \<and>
   kv (snd (allocate example_platform example_env url_a full_world)) = kv full_world \<and>
   fst (handle example_platform example_env post_a full_world) =
     Inr (withCors post_a (error_json ''Failed to allocate code'' 500 []) example_env) \<and>
   kv (snd (handle example_platform example_env post_a full_world)) = kv full_world"
proof -
  have pi: "\<And>x. parseInt [CHR ''0''] = Some 0 \<and> parseInt ''10'' = Some 10"
    by (simp add: parseInt_def is_space_def is_digit_def digits_val_def digit_val_def)
  have h1: "dedup_hit example_platform example_env url_a full_world = None"
    by (simp add: dedup_hit_def dedupTtl_def example_env_def or_str_def or_num_def pi)
  have h2: "\<forall>i<6. truthy (kv_lookup full_world (candidate full_world i))"
    by (simp add: candidate_zeros full_world_def empty_world_def kv_lookup_def truthy_def url_b_def)
  have h3: "no_kv_failure full_world"
    by (simp add: no_kv_failure_def full_world_def empty_world_def)
  have h4: "has_LINKS example_env \<and> pathname post_a = ''/short'' \<and> req_method post_a = ''POST''"
    by (simp add: example_env_def post_a_def)
  have h5: "rl_count full_world (rl_key example_platform example_env post_a full_world) < maxReq example_env"
    by (simp add: rl_count_def full_world_def empty_world_def maxReq_def example_env_def or_str_def
          or_num_def pi)
  have h6: "read_longUrl example_platform post_a = Inr url_a"
    by (simp add: read_longUrl_def post_a_def trim_def is_space_def base64ToUtf8_def pad4.simps
          example_platform_def isHttpUrl_def url_a_def url_b_def url_c_def)
  from allocation_exhausted [OF h1 h2, of post_a] h1 h2 h3 h4 h5 h6 show ?thesis
    by simp
qed

section \<open>Round trip of a newly allocated code\<close>

text \<open>
  Claim C1, as the code has it. Let \<open>u\<close> be a long URL that the validation accepts: the URL
  parser gives it the protocol \<open>http:\<close> or \<open>https:\<close> (and, as the runtime's parser does,
  rejects the empty string), and it has at most 8192 characters; let \<open>h\<close> be \<open>u\<close> as the
  parser writes it out again. When the deduplication index gives no live code for \<open>u\<close> (it
  is off, or has no entry, or the entry's link is gone) and \<open>allocate\<close> succeeds with a
  code, the code has 7 characters, all of the generator's alphabet, and at any later time the
  namespace holds exactly \<open>u\<close> under the code. A \<open>GET\<close> or \<open>HEAD\<close> of that code
  whose read of the namespace does not throw is answered by a redirect with status 302 whose
  \<open>Location\<close> is \<open>h\<close>: the original URL as written out by the parser, which is \<open>u\<close>
  itself exactly when \<open>u\<close> is already in that form.
\<close>

theorem fresh_allocation_roundtrip:
  assumes "isHttpUrl P u" and "length u \<le> 8192" and "url_protocol P [] = None"
      and "url_href P u = Some h"
      and "has_LINKS e"
      and "dedup_hit P e u s = None"
      and "allocate P e u s = (Inr (Some c), s')"
      and "pathname req = ''/'' @ c"
      and "req_method req = ''GET'' \<or> req_method req = ''HEAD''"
      and "\<not> kv_fails s' (length (kv_calls s'))"
  shows "length c = 7 \<and> set c \<subseteq> set chars \<and>
         kv_lookup (s'\<lparr>now_ms := t\<rparr>) c = Some u \<and>
         resolve P e req (s'\<lparr>now_ms := t\<rparr>) =
           (Inr \<lparr>status = 302, body = NoBody, headers = [(''Location'', h)]\<rparr>,
            s'\<lparr>now_ms := t, kv_calls := kv_calls s' @ [KvGet c]\<rparr>) \<and>
         handle P e req (s'\<lparr>now_ms := t\<rparr>) =
           (Inr \<lparr>status = 302, body = NoBody, headers = [(''Location'', h)]\<rparr>,
            s'\<lparr>now_ms := t, kv_calls := kv_calls s' @ [KvGet c]\<rparr>)"
proof -
  have u: "u \<noteq> []"
    using assms(1,3) by (auto simp: isHttpUrl_def)
  from allocate_Some(1)[OF assms(7)] assms(6) obtain i where
    c: "c = candidate s i"
    and k: "kv s' = (if dedupTtl e \<le> 0 then (kv s)(c \<mapsto> (u, None))
                   else (kv s)(c \<mapsto> (u, None),
                               dedup_key P u \<mapsto> (c, Some (now_ms s div 1000 + dedupTtl e))))"
    by auto
  have kc: "kv s' c = Some (u, None)"
    using k c candidate_not_dedup_key[of s i P u] by auto
  then have kl: "kv_lookup (s'\<lparr>now_ms := t\<rparr>) c = Some u"
    by (simp add: kv_lookup_def)
  have m: "match_code (pathname req) = Some c"
    using assms(8) c by (simp add: match_code_candidate)
  have r: "resolve P e req (s'\<lparr>now_ms := t\<rparr>) =
           (Inr \<lparr>status = 302, body = NoBody, headers = [(''Location'', h)]\<rparr>,
            s'\<lparr>now_ms := t, kv_calls := kv_calls s' @ [KvGet c]\<rparr>)"
    using resolve_link[of e req c "s'\<lparr>now_ms := t\<rparr>" u P h] assms(4,5,9,10) m kc u by simp
  have h: "handle P e req (s'\<lparr>now_ms := t\<rparr>) = resolve P e req (s'\<lparr>now_ms := t\<rparr>)"
    using assms(8) c candidate_not_route[of s i] by (simp add: handle_def Let_def)
  from c kl r h show ?thesis
    by (simp add: candidate_length candidate_chars)
qed

theorem fresh_allocation_roundtrip_witness:
  "isHttpUrl example_platform url_a \<and> length url_a \<le> 8192 \<and>
   url_protocol example_platform [] = None \<and> url_href example_platform url_a = Some url_a \<and>
   has_LINKS dedup_env \<and>
   dedup_hit example_platform dedup_env url_a empty_world = None \<and>
   fst (allocate example_platform dedup_env url_a empty_world) = Inr (Some ''AAAAAAA'') \<and>
   length ''AAAAAAA'' = 7 \<and> set ''AAAAAAA'' \<subseteq> set chars \<and>
   kv_lookup ((snd (allocate example_platform dedup_env url_a empty_world))\<lparr>now_ms := 1800000000000\<rparr>)
     ''AAAAAAA'' = Some url_a \<and>
   fst (resolve example_platform dedup_env (get_path ''/AAAAAAA'')
          ((snd (allocate example_platform dedup_env url_a empty_world))\<lparr>now_ms := 1800000000000\<rparr>))
     = Inr \<lparr>status = 302, body = NoBody, headers = [(''Location'', url_a)]\<rparr> \<and>
   fst (handle example_platform dedup_env (get_path ''/AAAAAAA'')
          ((snd (allocate example_platform dedup_env url_a empty_world))\<lparr>now_ms := 1800000000000\<rparr>))
     = Inr \<lparr>status = 302, body = NoBody, headers = [(''Location'', url_a)]\<rparr>"
proof -
  obtain s' where a: "allocate example_platform dedup_env url_a empty_world = (Inr (Some ''AAAAAAA''), s')"
    and nf: "\<not> kv_fails s' (length (kv_calls s'))"
    using ex_allocate_fresh by (simp add: empty_world_def)
  have l: "has_LINKS dedup_env"
    by (simp add: dedup_env_def example_env_def)
  have p: "pathname (get_path ''/AAAAAAA'') = ''/'' @ ''AAAAAAA''"
          "req_method (get_path ''/AAAAAAA'') = ''GET'' \<or> req_method (get_path ''/AAAAAAA'') = ''HEAD''"
    by (simp_all add: get_path_def)
  from fresh_allocation_roundtrip [OF ex_valid(1) ex_valid(4) ex_valid(3) ex_href(1) l ex_hit_empty a p nf,
      of 1800000000000]
  show ?thesis
    using a l ex_valid ex_hit_empty ex_href(1) by simp
qed

text \<open>
  Claim C1 as the specification words it, for every successful allocation and with the
  promise of exactly the original URL, does not hold, for two reasons. When a live
  deduplication entry is reused, the code returned is the one the entry names and the redirect
  goes to whatever URL the link of that code holds: in \<open>race_world\<close> the entry of
  \<open>url_a\<close> names a code whose link holds \<open>url_b\<close>. And the redirect carries the URL as
  the parser writes it out: the code newly allocated for \<open>https://example.com\<close> redirects
  to \<open>https://example.com/\<close>.
\<close>

theorem roundtrip_counterexample:
  "isHttpUrl example_platform url_a \<and> length url_a \<le> 8192 \<and>
   fst (allocate example_platform dedup_env url_a race_world) = Inr (Some ''AAAAAAA'') \<and>
   fst (resolve example_platform dedup_env (get_path ''/AAAAAAA'')
          (snd (allocate example_platform dedup_env url_a race_world)))
     = Inr \<lparr>status = 302, body = NoBody, headers = [(''Location'', url_b)]\<rparr> \<and>
   url_b \<noteq> url_a \<and>
   isHttpUrl example_platform url_c \<and> length url_c \<le> 8192 \<and>
   fst (allocate example_platform example_env url_c empty_world) = Inr (Some ''AAAAAAA'') \<and>
   fst (resolve example_platform example_env (get_path ''/AAAAAAA'')
          (snd (allocate example_platform example_env url_c empty_world)))
     = Inr \<lparr>status = 302, body = NoBody, headers = [(''Location'', ''https://example.com/'')]\<rparr> \<and>
   ''https://example.com/'' \<noteq> url_c"
proof -
  have l: "lookup_live example_platform dedup_env url_a race_world =
     (Inr (Some ''AAAAAAA''),
      race_world\<lparr>kv_calls := [KvGet ''D:c4ed1c218d14a0f15bba7044693ec4b0d68e0a63'', KvGet ''AAAAAAA'']\<rparr>)"
    by (simp add: lookup_live_on ex_dedupTtl ex_keys Let_def race_world_def empty_world_def
          kv_lookup_def truthy_def ex_urls)
  then have a: "allocate example_platform dedup_env url_a race_world =
     (Inr (Some ''AAAAAAA''),
      race_world\<lparr>kv_calls := [KvGet ''D:c4ed1c218d14a0f15bba7044693ec4b0d68e0a63'', KvGet ''AAAAAAA'']\<rparr>)"
    by (rule allocate_hit) (simp add: truthy_def)
  have m: "match_code (pathname (get_path ''/AAAAAAA'')) = Some ''AAAAAAA''"
    by (simp add: get_path_def match_code_def code_char_def)
  have g: "req_method (get_path ''/AAAAAAA'') = ''GET'' \<or> req_method (get_path ''/AAAAAAA'') = ''HEAD''"
    by (simp add: get_path_def)
  have ld: "has_LINKS dedup_env" "has_LINKS example_env"
    by (simp_all add: dedup_env_def example_env_def)
  have r: "fst (resolve example_platform dedup_env (get_path ''/AAAAAAA'')
      (race_world\<lparr>kv_calls := [KvGet ''D:c4ed1c218d14a0f15bba7044693ec4b0d68e0a63'', KvGet ''AAAAAAA'']\<rparr>))
      = Inr \<lparr>status = 302, body = NoBody, headers = [(''Location'', url_b)]\<rparr>"
    by (subst resolve_link[OF ld(1) m g, where u = url_b and h = url_b])
       (simp_all add: race_world_def empty_world_def ex_keys ex_urls ex_href)
  have hc: "dedup_hit example_platform example_env url_c empty_world = None"
    by (simp add: dedup_hit_def ex_dedupTtl)
  have fc: "\<not> truthy (kv_lookup empty_world (candidate empty_world 0))"
    by (simp add: kv_lookup_def empty_world_def truthy_def)
  have cz: "candidate empty_world 0 = ''AAAAAAA''"
    by (simp add: candidate_zeros empty_world_def)
  have ac: "fst (allocate example_platform example_env url_c empty_world) = Inr (Some ''AAAAAAA'')"
    using allocate_first_candidate(1)[OF hc ex_nf(1) fc] cz by simp
  let ?s = "snd (allocate example_platform example_env url_c empty_world)"
  have run: "allocate example_platform example_env url_c empty_world = (Inr (Some ''AAAAAAA''), ?s)"
    using ac by (cases "allocate example_platform example_env url_c empty_world") simp
  have kc: "kv ?s ''AAAAAAA'' = Some (url_c, None)"
    using allocate_first_candidate(2)[OF hc ex_nf(1) fc] cz by (simp add: ex_dedupTtl)
  have nf: "\<not> kv_fails ?s (length (kv_calls ?s))"
    using allocate_Some(2)[OF run] by (simp add: empty_world_def)
  have rc: "fst (resolve example_platform example_env (get_path ''/AAAAAAA'') ?s)
      = Inr \<lparr>status = 302, body = NoBody, headers = [(''Location'', ''https://example.com/'')]\<rparr>"
    by (subst resolve_link[OF ld(2) m g kc ex_url_c(3) nf ex_href(3)]) simp
  show ?thesis
    using a r ac rc ex_valid ex_urls ex_url_c by simp
qed

section \<open>A deduplication entry whose link is gone\<close>

text \<open>
  Claim C8, as the code has it. With deduplication on, let the entry of \<open>u\<close> name a code
  \<open>t\<close> whose link is absent. A successful \<open>allocate\<close> for \<open>u\<close> then takes its code
  from the retry loop, as if there were no entry: the code is the first of the six candidates
  that the namespace does not hold. It differs from \<open>t\<close> whenever no candidate drawn is
  \<open>t\<close> itself. The link of the new code is written, and the entry is not deleted: the
  record step overwrites it with the new code and a new expiry; the calls made to the
  namespace are reads followed by these two writes.
\<close>

theorem stale_entry_bypass:
  assumes "0 < dedupTtl e"
      and "kv_lookup s (dedup_key P u) = Some t"
      and "\<not> truthy (kv_lookup s t)"
      and "allocate P e u s = (Inr (Some c), s')"
  shows "(\<exists>i<6. c = candidate s i \<and> \<not> truthy (kv_lookup s c) \<and>
                (\<forall>j<i. truthy (kv_lookup s (candidate s j)))) \<and>
         ((\<forall>i<6. candidate s i \<noteq> t) \<longrightarrow> c \<noteq> t) \<and>
         kv s' c = Some (u, None) \<and>
         kv s' (dedup_key P u) = Some (c, Some (now_ms s div 1000 + dedupTtl e)) \<and>
         (\<exists>gs. kv_calls s' = kv_calls s @ map KvGet gs @
                 [KvPut c u None, KvPut (dedup_key P u) c (Some (dedupTtl e))])"
proof -
  have nohit: "dedup_hit P e u s = None"
    using assms(1-3) by (simp add: dedup_hit_def)
  from allocate_Some(1)[OF assms(4)] nohit assms(1) obtain i where
    i: "i < 6" "c = candidate s i" "\<not> truthy (kv_lookup s c)"
       "\<forall>j<i. truthy (kv_lookup s (candidate s j))"
    and k: "kv s' = (kv s)(c \<mapsto> (u, None),
                          dedup_key P u \<mapsto> (c, Some (now_ms s div 1000 + dedupTtl e)))"
    and g: "\<exists>gs. kv_calls s' = kv_calls s @ map KvGet gs @
                 [KvPut c u None, KvPut (dedup_key P u) c (Some (dedupTtl e))]"
    by auto
  have kc: "kv s' c = Some (u, None)"
    using k i(2) candidate_not_dedup_key[of s i P u] by auto
  from i k kc g show ?thesis
    by auto
qed

theorem stale_entry_bypass_witness:
  "0 < dedupTtl dedup_env \<and>
   kv_lookup stale_world_b (dedup_key example_platform url_a) = Some ''BBBBBBB'' \<and>
   \<not> truthy (kv_lookup stale_world_b ''BBBBBBB'') \<and>
   fst (allocate example_platform dedup_env url_a stale_world_b) = Inr (Some ''AAAAAAA'') \<and>
   ''AAAAAAA'' \<noteq> ''BBBBBBB'' \<and>
   kv (snd (allocate example_platform dedup_env url_a stale_world_b)) ''AAAAAAA'' = Some (url_a, None) \<and>
   kv (snd (allocate example_platform dedup_env url_a stale_world_b)) (dedup_key example_platform url_a)
     = Some (''AAAAAAA'', Some 1700003600)"
proof -
  have h: "dedup_hit example_platform dedup_env url_a stale_world_b = None"
    by (simp add: dedup_hit_def ex_stale truthy_def)
  have a: "fst (allocate example_platform dedup_env url_a stale_world_b) = Inr (Some ''AAAAAAA'')"
    using allocate_first_candidate(1)[OF h ex_nf(3)] by (simp add: ex_stale ex_stale_cand truthy_def)
  obtain s' where r: "allocate example_platform dedup_env url_a stale_world_b = (Inr (Some ''AAAAAAA''), s')"
    using a by (cases "allocate example_platform dedup_env url_a stale_world_b") simp
  have t: "0 < dedupTtl dedup_env"
    by (simp add: ex_dedupTtl)
  have n: "\<not> truthy (kv_lookup stale_world_b ''BBBBBBB'')"
    by (simp add: ex_stale truthy_def)
  from stale_entry_bypass [OF t ex_stale(3) n r] show ?thesis
    using r t n by (simp add: ex_stale ex_dedupTtl ex_now)
qed

text \<open>
  Claim C8 as the specification words it promises a code distinct from the stale one. The
  generator may draw the stale code again: in \<open>stale_world\<close> the entry names the code of
  seven \<open>A\<close>, its link is absent, the random source gives zeros, and the code allocated
  is that same code.
\<close>

theorem stale_entry_bypass_counterexample:
  "0 < dedupTtl dedup_env \<and>
   kv_lookup stale_world (dedup_key example_platform url_a) = Some ''AAAAAAA'' \<and>
   kv_lookup stale_world ''AAAAAAA'' = None \<and>
   fst (allocate example_platform dedup_env url_a stale_world) = Inr (Some ''AAAAAAA'')"
proof -
  have "dedup_hit example_platform dedup_env url_a stale_world = None"
    by (simp add: dedup_hit_def ex_stale truthy_def)
  from allocate_first_candidate(1)[OF this ex_nf(2)] show ?thesis
    by (simp add: ex_stale ex_stale_cand truthy_def ex_dedupTtl)
qed

section \<open>Reuse of a recorded code\<close>

text \<open>
  Claim C7. Deduplication is on. A first \<open>allocate\<close> for \<open>u\<close> from the world \<open>s0\<close>
  succeeds with the code \<open>c\<close> and leaves the world \<open>s1\<close>. The second call starts from
  a world \<open>s1'\<close> in which the deduplication entry of \<open>u\<close> reads as it did in \<open>s1\<close>
  (it has not expired: the call is within the window of the time to live) and the link of
  \<open>c\<close> is still there; its two reads do not throw. Then the second call returns the same
  code after these two reads and nothing else, and over both calls at most one link has been
  written. When the first call recorded the entry itself, the entry reads \<open>c\<close> at every
  time before the recording second plus the configured time to live.
\<close>

theorem dedup_reuse:
  assumes "0 < dedupTtl e"
      and "allocate P e u s0 = (Inr (Some c), s1)"
      and "kv_lookup s1' (dedup_key P u) = kv_lookup s1 (dedup_key P u)"
      and "truthy (kv_lookup s1' c)"
      and "kv_calls s1' = kv_calls s1"
      and "\<not> kv_fails s1' (length (kv_calls s1'))"
      and "\<not> kv_fails s1' (Suc (length (kv_calls s1')))"
  shows "allocate P e u s1' =
           (Inr (Some c), s1'\<lparr>kv_calls := kv_calls s1' @ [KvGet (dedup_key P u), KvGet c]\<rparr>) \<and>
         length (filter is_link_put
                   (drop (length (kv_calls s0)) (kv_calls (snd (allocate P e u s1'))))) \<le> 1 \<and>
         (dedup_hit P e u s0 = None \<longrightarrow>
            (\<forall>t. t div 1000 < now_ms s0 div 1000 + dedupTtl e \<longrightarrow>
                 kv_lookup (s1\<lparr>now_ms := t\<rparr>) (dedup_key P u) = Some c))"
proof -
  from allocate_records(1)[OF assms(1,2)] assms(3)
  have e: "kv_lookup s1' (dedup_key P u) = Some c" and c: "c \<noteq> []"
    by simp_all
  have l: "lookup_live P e u s1' =
      (Inr (Some c), s1'\<lparr>kv_calls := kv_calls s1' @ [KvGet (dedup_key P u), KvGet c]\<rparr>)"
    using assms(1,4,6,7) e c by (simp add: lookup_live_on Let_def)
  then have a: "allocate P e u s1' =
      (Inr (Some c), s1'\<lparr>kv_calls := kv_calls s1' @ [KvGet (dedup_key P u), KvGet c]\<rparr>)"
    by (rule allocate_hit) (simp add: truthy_def c)
  have len: "length (kv_calls s0) \<le> length (kv_calls s1)"
    using allocate_Some(1)[OF assms(2)] by auto
  have "length (filter is_link_put (drop (length (kv_calls s0))
           (kv_calls s1 @ [KvGet (dedup_key P u), KvGet c]))) \<le> 1"
    using allocate_records(3)[OF assms(1,2)] len by (simp add: is_link_put_def)
  with a assms(5) allocate_records(2)[OF assms(1,2)] show ?thesis
    by simp
qed

theorem dedup_reuse_witness:
  "0 < dedupTtl dedup_env \<and>
   fst (allocate example_platform dedup_env url_a empty_world) = Inr (Some ''AAAAAAA'') \<and>
   dedup_hit example_platform dedup_env url_a empty_world = None \<and>
   (1700000010000 :: int) div 1000 < now_ms empty_world div 1000 + dedupTtl dedup_env \<and>
   kv_lookup ((snd (allocate example_platform dedup_env url_a empty_world))\<lparr>now_ms := 1700000010000\<rparr>)
     (dedup_key example_platform url_a) = Some ''AAAAAAA'' \<and>
   truthy (kv_lookup ((snd (allocate example_platform dedup_env url_a empty_world))\<lparr>now_ms := 1700000010000\<rparr>)
             ''AAAAAAA'') \<and>
   fst (allocate example_platform dedup_env url_a
          ((snd (allocate example_platform dedup_env url_a empty_world))\<lparr>now_ms := 1700000010000\<rparr>))
     = Inr (Some ''AAAAAAA'') \<and>
   length (filter is_link_put
     (kv_calls (snd (allocate example_platform dedup_env url_a
          ((snd (allocate example_platform dedup_env url_a empty_world))\<lparr>now_ms := 1700000010000\<rparr>)))))
     \<le> 1"
proof -
  let ?s1 = "snd (allocate example_platform dedup_env url_a empty_world)"
  let ?s1' = "?s1\<lparr>now_ms := 1700000010000\<rparr>"
  have a: "allocate example_platform dedup_env url_a empty_world = (Inr (Some ''AAAAAAA''), ?s1)"
    by (simp add: ex_allocate_fresh)
  have t: "0 < dedupTtl dedup_env"
    by (simp add: ex_dedupTtl)
  have s1: "?s1 = empty_world\<lparr>random_pos := 7,
        kv_calls := [KvGet ''D:c4ed1c218d14a0f15bba7044693ec4b0d68e0a63'', KvGet ''AAAAAAA'',
                     KvPut ''AAAAAAA'' url_a None,
                     KvPut ''D:c4ed1c218d14a0f15bba7044693ec4b0d68e0a63'' ''AAAAAAA'' (Some 3600)],
        kv := [''AAAAAAA'' \<mapsto> (url_a, None),
               ''D:c4ed1c218d14a0f15bba7044693ec4b0d68e0a63'' \<mapsto> (''AAAAAAA'', Some 1700003600)]\<rparr>"
    by (simp add: ex_allocate_fresh)
  have k: "kv_lookup ?s1' (dedup_key example_platform url_a) = kv_lookup ?s1 (dedup_key example_platform url_a)"
    unfolding s1 by (simp add: ex_keys kv_lookup_def empty_world_def)
  have l: "truthy (kv_lookup ?s1' ''AAAAAAA'')"
    unfolding s1 by (simp add: kv_lookup_def truthy_def ex_urls)
  have c: "kv_calls ?s1' = kv_calls ?s1"
    by simp
  have n: "\<not> kv_fails ?s1' (length (kv_calls ?s1'))" "\<not> kv_fails ?s1' (Suc (length (kv_calls ?s1')))"
    unfolding s1 by (simp_all add: empty_world_def)
  have z: "kv_calls empty_world = []"
    by (simp add: empty_world_def)
  have a1: "fst (allocate example_platform dedup_env url_a empty_world) = Inr (Some ''AAAAAAA'')"
    by (simp add: ex_allocate_fresh)
  note th = dedup_reuse [OF t a k l c n]
  from th have a2: "fst (allocate example_platform dedup_env url_a ?s1') = Inr (Some ''AAAAAAA'')"
    by simp
  from th have "length (filter is_link_put (drop (length (kv_calls empty_world))
      (kv_calls (snd (allocate example_platform dedup_env url_a ?s1'))))) \<le> 1"
    by blast
  then have len: "length (filter is_link_put
      (kv_calls (snd (allocate example_platform dedup_env url_a ?s1')))) \<le> 1"
    by (simp only: z list.size drop_0)
  have w: "(1700000010000 :: int) div 1000 < now_ms empty_world div 1000 + dedupTtl dedup_env"
    by (simp add: ex_now ex_dedupTtl)
  from th ex_hit_empty w have e: "kv_lookup ?s1' (dedup_key example_platform url_a) = Some ''AAAAAAA''"
    by blast
  from t a1 ex_hit_empty w e l a2 len show ?thesis
    by blast
qed

section \<open>A failing write of the deduplication entry\<close>

text \<open>
  Claim C3, as the code has it. Take a creation request that reaches the write of its link:
  the deduplication lookup gave no live code, the retry loop chose the code \<open>c\<close>, and
  \<open>LINKS.put(c, u)\<close> returned, so that the namespace holds the link. What follows is the
  record step and nothing catches what it throws. The record step throws exactly when
  deduplication is on and its call to the namespace fails; then \<open>allocate\<close> and \<open>handle\<close>
  end with that exception and produce no response, while the link stays written. When
  deduplication is off or the write goes through, \<open>handle\<close> answers with status 200 and
  the short URL of \<open>c\<close>.
\<close>

theorem record_failure_surfaces:
  assumes "lookup_live P e u s = (Inr code, s1)" and "\<not> truthy code"
      and "try_codes 6 s1 = (Inr (Some c), s2)"
      and "LINKS_put c u None s2 = (Inr (), s3)"
  shows "kv s3 c = Some (u, None) \<and>
         kv (snd (putDedupCode P e u c s3)) c = Some (u, None) \<and>
         fst (putDedupCode P e u c s3) =
           (if 0 < dedupTtl e \<and> kv_fails s3 (length (kv_calls s3)) then Inl KvFailure else Inr ()) \<and>
         allocate P e u s =
           (case putDedupCode P e u c s3 of
              (Inl x, s4) \<Rightarrow> (Inl x, s4)
            | (Inr y, s4) \<Rightarrow> (Inr (Some c), s4)) \<and>
         (has_LINKS e \<and> pathname req = ''/short'' \<and> req_method req = ''POST'' \<and>
          rl_count s0 (rl_key P e req s0) < maxReq e \<and> read_longUrl P req = Inr u \<and>
          counted P e req s0 = s \<longrightarrow>
            handle P e req s0 =
              (case putDedupCode P e u c s3 of
                 (Inl x, s4) \<Rightarrow> (Inl x, s4)
               | (Inr y, s4) \<Rightarrow>
                   (Inr (withCors req
                           (json [(''Code'', JNum 1), (''ShortUrl'', JStr (short_url e req c))] 200
                              (rl_headers \<lparr>ok = True,
                                 remaining = maxReq e - (rl_count s0 (rl_key P e req s0) + 1),
                                 resetIn = reset_in e s0\<rparr>)) e), s4)))"
proof -
  from try_codes_Some[OF assms(3)] obtain i where c: "c = candidate s1 i"
    by blast
  have tc: "truthy (Some c)"
    using c by (simp add: truthy_candidate)
  have a: "allocate P e u s =
           (case putDedupCode P e u c s3 of
              (Inl x, s4) \<Rightarrow> (Inl x, s4)
            | (Inr y, s4) \<Rightarrow> (Inr (Some c), s4))"
    using assms tc
    by (simp add: allocate_miss allocate_new_def await_def ret_def split: prod.splits sum.splits)
  have h: "handle P e req s0 =
              (case putDedupCode P e u c s3 of
                 (Inl x, s4) \<Rightarrow> (Inl x, s4)
               | (Inr y, s4) \<Rightarrow>
                   (Inr (withCors req
                           (json [(''Code'', JNum 1), (''ShortUrl'', JStr (short_url e req c))] 200
                              (rl_headers \<lparr>ok = True,
                                 remaining = maxReq e - (rl_count s0 (rl_key P e req s0) + 1),
                                 resetIn = reset_in e s0\<rparr>)) e), s4))"
    if "has_LINKS e" "pathname req = ''/short''" "req_method req = ''POST''"
       "rl_count s0 (rl_key P e req s0) < maxReq e" "read_longUrl P req = Inr u"
       "counted P e req s0 = s"
    using that a
    by (simp add: handle_post create_admitted split: prod.splits sum.splits)
  from put_link_kv[OF assms(3,4), of P e] a h show ?thesis
    by blast
qed

theorem record_failure_surfaces_witness:
  "lookup_live example_platform dedup_env url_a failing_start = (Inr None, failing_looked) \<and>
   \<not> truthy None \<and>
   try_codes 6 failing_looked = (Inr (Some ''AAAAAAA''), failing_chosen) \<and>
   LINKS_put ''AAAAAAA'' url_a None failing_chosen = (Inr (), failing_written) \<and>
   kv failing_written ''AAAAAAA'' = Some (url_a, None) \<and>
   0 < dedupTtl dedup_env \<and> kv_fails failing_written (length (kv_calls failing_written)) \<and>
   fst (putDedupCode example_platform dedup_env url_a ''AAAAAAA'' failing_written) = Inl KvFailure \<and>
   fst (allocate example_platform dedup_env url_a failing_start) = Inl KvFailure \<and>
   fst (handle example_platform dedup_env post_a failing_world) = Inl KvFailure"
proof -
  have nt: "\<not> truthy None"
    by (simp add: truthy_def)
  have f: "kv_fails failing_written (length (kv_calls failing_written))"
    by (simp add: ex_failing_written(2) ex_failing_start)
  have st: "counted example_platform dedup_env post_a failing_world = failing_start"
    by (simp add: failing_start_def)
  note th = record_failure_surfaces [OF ex_failing_looked(1) nt ex_failing_chosen(1) ex_failing_written(1),
      where req = post_a and ?s0.0 = failing_world]
  from th have k: "kv failing_written ''AAAAAAA'' = Some (url_a, None)"
    by blast
  from th f have p: "fst (putDedupCode example_platform dedup_env url_a ''AAAAAAA'' failing_written) = Inl KvFailure"
    by (simp add: ex_dedupTtl)
  from th have "allocate example_platform dedup_env url_a failing_start =
           (case putDedupCode example_platform dedup_env url_a ''AAAAAAA'' failing_written of
              (Inl x, s4) \<Rightarrow> (Inl x, s4)
            | (Inr y, s4) \<Rightarrow> (Inr (Some ''AAAAAAA''), s4))"
    by blast
  with p have a: "fst (allocate example_platform dedup_env url_a failing_start) = Inl KvFailure"
    by (cases "putDedupCode example_platform dedup_env url_a ''AAAAAAA'' failing_written") auto
  from th ex_post_a st have "handle example_platform dedup_env post_a failing_world =
              (case putDedupCode example_platform dedup_env url_a ''AAAAAAA'' failing_written of
                 (Inl x, s4) \<Rightarrow> (Inl x, s4)
               | (Inr y, s4) \<Rightarrow>
                   (Inr (withCors post_a
                           (json [(''Code'', JNum 1), (''ShortUrl'', JStr (short_url dedup_env post_a ''AAAAAAA''))] 200
                              (rl_headers \<lparr>ok = True,
                                 remaining = maxReq dedup_env - (rl_count failing_world (rl_key example_platform dedup_env post_a failing_world) + 1),
                                 resetIn = reset_in dedup_env failing_world\<rparr>)) dedup_env), s4))"
    by blast
  with p have h: "fst (handle example_platform dedup_env post_a failing_world) = Inl KvFailure"
    by (cases "putDedupCode example_platform dedup_env url_a ''AAAAAAA'' failing_written") auto
  have t: "0 < dedupTtl dedup_env"
    by (simp add: ex_dedupTtl)
  from ex_failing_looked(1) nt ex_failing_chosen(1) ex_failing_written(1) k t f p a h show ?thesis
    by blast
qed

text \<open>
  Claim C3 as the specification words it, that a failure of the record write is never surfaced,
  does not hold. In \<open>failing_world\<close> the first three calls to the namespace succeed, the
  third being the write of the link, and the fourth, the write of the deduplication entry,
  throws: \<open>handle\<close> ends with the exception instead of the answer 200.
\<close>

theorem record_failure_counterexample:
  "has_LINKS dedup_env \<and> read_longUrl example_platform post_a = Inr url_a \<and>
   fst (handle example_platform dedup_env post_a failing_world) = Inl KvFailure \<and>
   kv (snd (handle example_platform dedup_env post_a failing_world)) ''AAAAAAA'' = Some (url_a, None) \<and>
   kv_calls (snd (handle example_platform dedup_env post_a failing_world)) =
     [KvGet ''D:c4ed1c218d14a0f15bba7044693ec4b0d68e0a63'', KvGet ''AAAAAAA'',
      KvPut ''AAAAAAA'' url_a None,
      KvPut ''D:c4ed1c218d14a0f15bba7044693ec4b0d68e0a63'' ''AAAAAAA'' (Some 3600)]"
  using ex_post_a(1,4) by (simp add: ex_failing_handle ex_failing_written(2))

section \<open>Malformed codes\<close>

text \<open>
  Claim C6. Let \<open>t\<close> be a token that fails the shape check: its length is outside 3 to 64,
  or one of its characters is not a letter, a digit, an underscore or a hyphen. For the path
  \<open>/t\<close> the resolver, the end of \<open>handle\<close> that serves short codes, answers
  "Not Found" with status 404 and leaves the world as it was, so that no call reaches the
  namespace. The whole of \<open>handle\<close> does the same for such a path, whatever the method,
  except for the empty token under \<open>GET\<close>: the path is then \<open>/\<close>, which
  \<open>handle\<close> serves as the landing page before the resolver is reached (also without
  any call to the namespace).
\<close>

theorem malformed_token_not_found:
  assumes "\<not> (3 \<le> length t \<and> length t \<le> 64 \<and>
              (\<forall>c \<in> set t. is_alnum c \<or> c = CHR ''_'' \<or> c = CHR ''-''))"
      and "pathname req = ''/'' @ t"
  shows "resolve P e req s = (Inr (text_response ''Not Found'' 404 []), s) \<and>
         status (text_response ''Not Found'' 404 []) = 404 \<and>
         (t \<noteq> [] \<or> req_method req \<noteq> ''GET'' \<longrightarrow>
            handle P e req s = (Inr (text_response ''Not Found'' 404 []), s))"
proof -
  have p: "pathname req = CHR ''/'' # t"
    using assms(2) by simp
  have m: "match_code (pathname req) = None"
    unfolding p using assms(1) by (simp only: match_code_iff if_False)
  have r: "resolve P e req s = (Inr (text_response ''Not Found'' 404 []), s)"
    using m by (simp add: resolve_def ret_def)
  have n1: "pathname req \<noteq> ''/healthz''"
    using m route_names_match(1) by auto
  have n2: "pathname req \<noteq> ''/short''"
    using m route_names_match(2) by auto
  have h: "handle P e req s = (Inr (text_response ''Not Found'' 404 []), s)"
    if "t \<noteq> [] \<or> req_method req \<noteq> ''GET''"
    using that n1 n2 r p by (auto simp: handle_def Let_def)
  from r h show ?thesis
    by (simp add: text_response_def)
qed

theorem malformed_token_not_found_witness:
  "length ''ab'' < 3 \<and> pathname (get_path ''/ab'') = ''/'' @ ''ab'' \<and>
   resolve example_platform example_env (get_path ''/ab'') empty_world =
     (Inr (text_response ''Not Found'' 404 []), empty_world) \<and>
   handle example_platform example_env (get_path ''/ab'') empty_world =
     (Inr (text_response ''Not Found'' 404 []), empty_world) \<and>
   kv_calls empty_world = []"
proof -
  have a: "\<not> (3 \<le> length ''ab'' \<and> length ''ab'' \<le> 64 \<and>
              (\<forall>c \<in> set ''ab''. is_alnum c \<or> c = CHR ''_'' \<or> c = CHR ''-''))"
    by simp
  have p: "pathname (get_path ''/ab'') = ''/'' @ ''ab''"
    by (simp add: get_path_def)
  from malformed_token_not_found [OF a p, where e = example_env and s = empty_world
      and P = example_platform] show ?thesis
    by (simp add: get_path_def empty_world_def)
qed

section \<open>The fixed window of the rate limiter\<close>

text \<open>
  Claim C5. The window is 60 seconds and the maximum 3. Four calls for one client are made
  at times of one window, with index \<open>b\<close>, starting from a cache without an entry for
  that client and window; between the calls only the clock moves. The first three are allowed
  with 2, 1 and 0 remaining, the fourth is refused with 0 remaining. A fifth call at a time of
  a later window, for which the cache has no entry either, is allowed again. Each call reports
  \<open>(b + 1) * 60 - now\<close> seconds to the reset, and the calls made to the cache are: a read
  for every call, and after the read of every allowed call a write of the new count with at
  least 1 and else these seconds as its \<open>max-age\<close>. In general, for every configuration,
  a call that finds a count below the maximum is allowed, writes the count plus one with
  \<open>max(1, resetIn)\<close> as \<open>max-age\<close>, where \<open>resetIn = (bucket + 1) * W - now\<close>,
  and the count read back afterwards is one more than before.
\<close>

theorem fixed_window_three:
  assumes "windowSec e = 60" and "maxReq e = 3"
      and "t1 div 1000 div 60 = b" and "t2 div 1000 div 60 = b"
      and "t3 div 1000 div 60 = b" and "t4 div 1000 div 60 = b"
      and "t5 div 1000 div 60 = b'" and "b < b'"
      and "cache s0 (keyUrl P b (getClientIp req)) = None"
      and "cache s0 (keyUrl P b' (getClientIp req)) = None"
      and "admit_at P e req t1 s0 = (r1, s1)" and "admit_at P e req t2 s1 = (r2, s2)"
      and "admit_at P e req t3 s2 = (r3, s3)" and "admit_at P e req t4 s3 = (r4, s4)"
      and "admit_at P e req t5 s4 = (r5, s5)"
  shows "r1 = Inr \<lparr>ok = True, remaining = 2, resetIn = (b + 1) * 60 - t1 div 1000\<rparr> \<and>
         r2 = Inr \<lparr>ok = True, remaining = 1, resetIn = (b + 1) * 60 - t2 div 1000\<rparr> \<and>
         r3 = Inr \<lparr>ok = True, remaining = 0, resetIn = (b + 1) * 60 - t3 div 1000\<rparr> \<and>
         r4 = Inr \<lparr>ok = False, remaining = 0, resetIn = (b + 1) * 60 - t4 div 1000\<rparr> \<and>
         r5 = Inr \<lparr>ok = True, remaining = 2, resetIn = (b' + 1) * 60 - t5 div 1000\<rparr> \<and>
         cache_calls s5 = cache_calls s0 @
           [CacheMatch (keyUrl P b (getClientIp req)),
            CachePut (keyUrl P b (getClientIp req)) ''1'' (max 1 ((b + 1) * 60 - t1 div 1000)),
            CacheMatch (keyUrl P b (getClientIp req)),
            CachePut (keyUrl P b (getClientIp req)) ''2'' (max 1 ((b + 1) * 60 - t2 div 1000)),
            CacheMatch (keyUrl P b (getClientIp req)),
            CachePut (keyUrl P b (getClientIp req)) ''3'' (max 1 ((b + 1) * 60 - t3 div 1000)),
            CacheMatch (keyUrl P b (getClientIp req)),
            CacheMatch (keyUrl P b' (getClientIp req)),
            CachePut (keyUrl P b' (getClientIp req)) ''1'' (max 1 ((b' + 1) * 60 - t5 div 1000))] \<and>
         (\<forall>e' req' s.
            rl_count s (rl_key P e' req' s) < maxReq e' \<longrightarrow>
              rateLimit P e' req' s =
                (Inr \<lparr>ok = True, remaining = maxReq e' - (rl_count s (rl_key P e' req' s) + 1),
                      resetIn = (now_ms s div 1000 div windowSec e' + 1) * windowSec e' - now_ms s div 1000\<rparr>,
                 s\<lparr>cache_calls := cache_calls s @
                       [CacheMatch (rl_key P e' req' s),
                        CachePut (rl_key P e' req' s) (String (rl_count s (rl_key P e' req' s) + 1))
                          (max 1 ((now_ms s div 1000 div windowSec e' + 1) * windowSec e' - now_ms s div 1000))],
                    cache := (cache s)(rl_key P e' req' s \<mapsto> String (rl_count s (rl_key P e' req' s) + 1))\<rparr>) \<and>
              rl_count (snd (rateLimit P e' req' s)) (rl_key P e' req' s) =
                rl_count s (rl_key P e' req' s) + 1)"
proof -
  let ?k = "keyUrl P b (getClientIp req)"
  let ?k' = "keyUrl P b' (getClientIp req)"
  have kk: "?k' \<noteq> ?k"
    using assms(8) keyUrl_inj[of P b' "getClientIp req" b] by auto
  have c0: "rl_count s0 ?k = 0"
    using assms(9) by (rule rl_count_None)
  note st1 = admit_at_allowed[OF assms(1,2,3) c0, simplified, unfolded String_small]
  have r1: "r1 = Inr \<lparr>ok = True, remaining = 2, resetIn = (b + 1) * 60 - t1 div 1000\<rparr>"
    and s1: "s1 = s0\<lparr>now_ms := t1,
       cache_calls := cache_calls s0 @
         [CacheMatch ?k, CachePut ?k ''1'' (max 1 ((b + 1) * 60 - t1 div 1000))],
       cache := (cache s0)(?k \<mapsto> ''1'')\<rparr>"
    using assms(11) st1 by simp_all
  have c1: "rl_count s1 ?k = 1"
    by (rule rl_count_String) (simp add: s1 String_small)
  note st2 = admit_at_allowed[OF assms(1,2,4) c1, simplified, unfolded String_small]
  have r2: "r2 = Inr \<lparr>ok = True, remaining = 1, resetIn = (b + 1) * 60 - t2 div 1000\<rparr>"
    and s2: "s2 = s1\<lparr>now_ms := t2,
       cache_calls := cache_calls s1 @
         [CacheMatch ?k, CachePut ?k ''2'' (max 1 ((b + 1) * 60 - t2 div 1000))],
       cache := (cache s1)(?k \<mapsto> ''2'')\<rparr>"
    using assms(12) st2 by simp_all
  have c2: "rl_count s2 ?k = 2"
    by (rule rl_count_String) (simp add: s2 String_small)
  note st3 = admit_at_allowed[OF assms(1,2,5) c2, simplified, unfolded String_small]
  have r3: "r3 = Inr \<lparr>ok = True, remaining = 0, resetIn = (b + 1) * 60 - t3 div 1000\<rparr>"
    and s3: "s3 = s2\<lparr>now_ms := t3,
       cache_calls := cache_calls s2 @
         [CacheMatch ?k, CachePut ?k ''3'' (max 1 ((b + 1) * 60 - t3 div 1000))],
       cache := (cache s2)(?k \<mapsto> ''3'')\<rparr>"
    using assms(13) st3 by simp_all
  have c3: "rl_count s3 ?k = 3"
    by (rule rl_count_String) (simp add: s3 String_small)
  note st4 = admit_at_denied[OF assms(1,2,6) c3, simplified]
  have r4: "r4 = Inr \<lparr>ok = False, remaining = 0, resetIn = (b + 1) * 60 - t4 div 1000\<rparr>"
    and s4: "s4 = s3\<lparr>now_ms := t4, cache_calls := cache_calls s3 @ [CacheMatch ?k]\<rparr>"
    using assms(14) st4 by simp_all
  have "cache s4 ?k' = None"
    using assms(10) kk by (simp add: s4 s3 s2 s1)
  then have c4: "rl_count s4 ?k' = 0"
    by (rule rl_count_None)
  note st5 = admit_at_allowed[OF assms(1,2,7) c4, simplified, unfolded String_small]
  have r5: "r5 = Inr \<lparr>ok = True, remaining = 2, resetIn = (b' + 1) * 60 - t5 div 1000\<rparr>"
    and s5: "s5 = s4\<lparr>now_ms := t5,
       cache_calls := cache_calls s4 @
         [CacheMatch ?k', CachePut ?k' ''1'' (max 1 ((b' + 1) * 60 - t5 div 1000))],
       cache := (cache s4)(?k' \<mapsto> ''1'')\<rparr>"
    using assms(15) st5 by simp_all
  have calls: "cache_calls s5 = cache_calls s0 @
           [CacheMatch ?k, CachePut ?k ''1'' (max 1 ((b + 1) * 60 - t1 div 1000)),
            CacheMatch ?k, CachePut ?k ''2'' (max 1 ((b + 1) * 60 - t2 div 1000)),
            CacheMatch ?k, CachePut ?k ''3'' (max 1 ((b + 1) * 60 - t3 div 1000)),
            CacheMatch ?k,
            CacheMatch ?k', CachePut ?k' ''1'' (max 1 ((b' + 1) * 60 - t5 div 1000))]"
    by (simp add: s5 s4 s3 s2 s1)
  have gen: "rateLimit P e' req' s =
                (Inr \<lparr>ok = True, remaining = maxReq e' - (rl_count s (rl_key P e' req' s) + 1),
                      resetIn = (now_ms s div 1000 div windowSec e' + 1) * windowSec e' - now_ms s div 1000\<rparr>,
                 s\<lparr>cache_calls := cache_calls s @
                       [CacheMatch (rl_key P e' req' s),
                        CachePut (rl_key P e' req' s) (String (rl_count s (rl_key P e' req' s) + 1))
                          (max 1 ((now_ms s div 1000 div windowSec e' + 1) * windowSec e' - now_ms s div 1000))],
                    cache := (cache s)(rl_key P e' req' s \<mapsto> String (rl_count s (rl_key P e' req' s) + 1))\<rparr>) \<and>
              rl_count (snd (rateLimit P e' req' s)) (rl_key P e' req' s) =
                rl_count s (rl_key P e' req' s) + 1"
    if "rl_count s (rl_key P e' req' s) < maxReq e'" for e' req' s
    using rateLimit_admit[OF that] counted_count[of P e' req' s]
    by (simp add: counted_def reset_in_def Let_def)
  from r1 r2 r3 r4 r5 calls gen show ?thesis
    by blast
qed

theorem fixed_window_three_witness:
  "windowSec rl_env = 60 \<and> maxReq rl_env = 3 \<and>
   (1700000000000 :: int) div 1000 div 60 = 28333333 \<and>
   (1700000010000 :: int) div 1000 div 60 = 28333333 \<and>
   (1700000020000 :: int) div 1000 div 60 = 28333333 \<and>
   (1700000030000 :: int) div 1000 div 60 = 28333333 \<and>
   (1700000040000 :: int) div 1000 div 60 = 28333334 \<and>
   cache empty_world (keyUrl example_platform 28333333 (getClientIp post_a)) = None \<and>
   cache empty_world (keyUrl example_platform 28333334 (getClientIp post_a)) = None \<and>
   fst (admit_at example_platform rl_env post_a 1700000000000 empty_world)
     = Inr \<lparr>ok = True, remaining = 2, resetIn = 40\<rparr> \<and>
   fst (admit_at example_platform rl_env post_a 1700000010000 rl_w1)
     = Inr \<lparr>ok = True, remaining = 1, resetIn = 30\<rparr> \<and>
   fst (admit_at example_platform rl_env post_a 1700000020000 rl_w2)
     = Inr \<lparr>ok = True, remaining = 0, resetIn = 20\<rparr> \<and>
   fst (admit_at example_platform rl_env post_a 1700000030000 rl_w3)
     = Inr \<lparr>ok = False, remaining = 0, resetIn = 10\<rparr> \<and>
   fst (admit_at example_platform rl_env post_a 1700000040000 rl_w4)
     = Inr \<lparr>ok = True, remaining = 2, resetIn = 60\<rparr> \<and>
   rl_count empty_world (rl_key example_platform rl_env post_a empty_world) < maxReq rl_env \<and>
   rl_count (snd (rateLimit example_platform rl_env post_a empty_world))
     (rl_key example_platform rl_env post_a empty_world) = 1"
proof -
  have d: "(1700000000000 :: int) div 1000 div 60 = 28333333"
          "(1700000010000 :: int) div 1000 div 60 = 28333333"
          "(1700000020000 :: int) div 1000 div 60 = 28333333"
          "(1700000030000 :: int) div 1000 div 60 = 28333333"
          "(1700000040000 :: int) div 1000 div 60 = 28333334"
    by simp_all
  have lt: "(28333333 :: int) < 28333334"
    by simp
  have r1: "admit_at example_platform rl_env post_a 1700000000000 empty_world =
      (fst (admit_at example_platform rl_env post_a 1700000000000 empty_world), rl_w1)"
    by (simp add: rl_w1_def)
  have r2: "admit_at example_platform rl_env post_a 1700000010000 rl_w1 =
      (fst (admit_at example_platform rl_env post_a 1700000010000 rl_w1), rl_w2)"
    by (simp add: rl_w2_def)
  have r3: "admit_at example_platform rl_env post_a 1700000020000 rl_w2 =
      (fst (admit_at example_platform rl_env post_a 1700000020000 rl_w2), rl_w3)"
    by (simp add: rl_w3_def)
  have r4: "admit_at example_platform rl_env post_a 1700000030000 rl_w3 =
      (fst (admit_at example_platform rl_env post_a 1700000030000 rl_w3), rl_w4)"
    by (simp add: rl_w4_def)
  have r5: "admit_at example_platform rl_env post_a 1700000040000 rl_w4 =
      (fst (admit_at example_platform rl_env post_a 1700000040000 rl_w4),
       snd (admit_at example_platform rl_env post_a 1700000040000 rl_w4))"
    by simp
  note th = fixed_window_three [OF ex_rl_env d lt ex_empty_cache ex_empty_cache r1 r2 r3 r4 r5]
  from th have
    "fst (admit_at example_platform rl_env post_a 1700000000000 empty_world)
       = Inr \<lparr>ok = True, remaining = 2, resetIn = (28333333 + 1) * 60 - 1700000000000 div 1000\<rparr>"
    "fst (admit_at example_platform rl_env post_a 1700000010000 rl_w1)
       = Inr \<lparr>ok = True, remaining = 1, resetIn = (28333333 + 1) * 60 - 1700000010000 div 1000\<rparr>"
    "fst (admit_at example_platform rl_env post_a 1700000020000 rl_w2)
       = Inr \<lparr>ok = True, remaining = 0, resetIn = (28333333 + 1) * 60 - 1700000020000 div 1000\<rparr>"
    "fst (admit_at example_platform rl_env post_a 1700000030000 rl_w3)
       = Inr \<lparr>ok = False, remaining = 0, resetIn = (28333333 + 1) * 60 - 1700000030000 div 1000\<rparr>"
    "fst (admit_at example_platform rl_env post_a 1700000040000 rl_w4)
       = Inr \<lparr>ok = True, remaining = 2, resetIn = (28333334 + 1) * 60 - 1700000040000 div 1000\<rparr>"
    by blast+
  moreover have lt0: "rl_count empty_world (rl_key example_platform rl_env post_a empty_world) < maxReq rl_env"
    by (simp add: rl_count_None ex_empty_cache ex_rl_env)
  moreover from th lt0 have
    "rl_count (snd (rateLimit example_platform rl_env post_a empty_world))
       (rl_key example_platform rl_env post_a empty_world) =
     rl_count empty_world (rl_key example_platform rl_env post_a empty_world) + 1"
    by blast
  ultimately show ?thesis
    using ex_rl_env d ex_empty_cache by (simp add: rl_count_None)
qed

section \<open>The quota is spent before the input is validated\<close>

text \<open>
  Claim C10. Take a \<open>POST /short\<close> with the namespace bound that the rate limiter admits,
  that is, whose client has a count below the maximum in the current window. Whatever
  \<open>handle\<close> does afterwards, the world it leaves has the count plus one in the cache
  under the client's key, the count read back is one more than before, and the only calls made
  to the cache are the read and this write. In particular, when the validation of
  \<open>longUrl\<close> fails (the form cannot be read, the field is missing, too long, not
  base64, or does not decode to an http or https URL), \<open>handle\<close> answers with the
  validation's message and status, which is 400 or 413, and the world it leaves is exactly
  the one with the request counted.
\<close>

theorem quota_spent_before_validation:
  assumes "has_LINKS e" and "pathname req = ''/short''" and "req_method req = ''POST''"
      and "rl_count s (rl_key P e req s) < maxReq e"
  shows "cache (snd (handle P e req s)) =
           (cache s)(rl_key P e req s \<mapsto> String (rl_count s (rl_key P e req s) + 1)) \<and>
         rl_count (snd (handle P e req s)) (rl_key P e req s) = rl_count s (rl_key P e req s) + 1 \<and>
         cache_calls (snd (handle P e req s)) = cache_calls s @
           [CacheMatch (rl_key P e req s),
            CachePut (rl_key P e req s) (String (rl_count s (rl_key P e req s) + 1))
              (max 1 (reset_in e s))] \<and>
         (\<forall>msg st. read_longUrl P req = Inl (msg, st) \<longrightarrow>
            handle P e req s = (Inr (withCors req (error_json msg st []) e), counted P e req s) \<and>
            status (withCors req (error_json msg st []) e) = st \<and> (st = 400 \<or> st = 413))"
proof -
  have h: "handle P e req s = create P e req s"
    using assms(2,3) by (simp add: handle_post)
  note c = create_counts[OF assms(1,4)]
  have a: "cache (snd (handle P e req s)) =
           (cache s)(rl_key P e req s \<mapsto> String (rl_count s (rl_key P e req s) + 1))"
    using c by (simp add: h counted_cache)
  have "rl_count (snd (handle P e req s)) = rl_count (counted P e req s)"
    using c by (intro rl_count_cong) (simp add: h)
  then have b: "rl_count (snd (handle P e req s)) (rl_key P e req s) = rl_count s (rl_key P e req s) + 1"
    by (simp add: counted_count)
  have d: "cache_calls (snd (handle P e req s)) = cache_calls s @
           [CacheMatch (rl_key P e req s),
            CachePut (rl_key P e req s) (String (rl_count s (rl_key P e req s) + 1))
              (max 1 (reset_in e s))]"
    using c by (simp add: h counted_cache)
  have v: "handle P e req s = (Inr (withCors req (error_json msg st []) e), counted P e req s) \<and>
            status (withCors req (error_json msg st []) e) = st \<and> (st = 400 \<or> st = 413)"
    if "read_longUrl P req = Inl (msg, st)" for msg st
    using that assms(1,4) read_longUrl_status[OF that]
    by (simp add: h create_admitted error_json_def json_def)
  from a b d v show ?thesis
    by blast
qed

theorem quota_spent_before_validation_witness:
  "has_LINKS example_env \<and> pathname post_empty = ''/short'' \<and> req_method post_empty = ''POST'' \<and>
   rl_count empty_world (rl_key example_platform example_env post_empty empty_world) < maxReq example_env \<and>
   read_longUrl example_platform post_empty = Inl (''Missing longUrl'', 400) \<and>
   fst (handle example_platform example_env post_empty empty_world) =
     Inr (withCors post_empty (error_json ''Missing longUrl'' 400 []) example_env) \<and>
   status (withCors post_empty (error_json ''Missing longUrl'' 400 []) example_env) = 400 \<and>
   rl_count empty_world (rl_key example_platform example_env post_empty empty_world) = 0 \<and>
   rl_count (snd (handle example_platform example_env post_empty empty_world))
     (rl_key example_platform example_env post_empty empty_world) = 1"
proof -
  have lt: "rl_count empty_world (rl_key example_platform example_env post_empty empty_world) < maxReq example_env"
    by (simp add: ex_post_empty)
  note th = quota_spent_before_validation [OF ex_post_empty(1,2,3) lt]
  from th have c: "rl_count (snd (handle example_platform example_env post_empty empty_world))
     (rl_key example_platform example_env post_empty empty_world) =
     rl_count empty_world (rl_key example_platform example_env post_empty empty_world) + 1"
    by blast
  from th ex_post_empty(4) have
    "handle example_platform example_env post_empty empty_world =
       (Inr (withCors post_empty (error_json ''Missing longUrl'' 400 []) example_env),
        counted example_platform example_env post_empty empty_world) \<and>
     status (withCors post_empty (error_json ''Missing longUrl'' 400 []) example_env) = 400"
    by blast
  with c lt show ?thesis
    using ex_post_empty by simp
qed

end
